theory Spec2Isabelle
  imports Main "HOL-Library.Word"
begin

section \<open>Data model: bytes, text and failures\<close>

text \<open>
  A \<^verbatim>\<open>Uint8Array\<close> is a list of 8-bit words. A JavaScript string is a list of UTF-16
  code units, kept as natural numbers; \<open>js\<close> turns an ASCII literal into such a string.
\<close>

type_synonym byte = "8 word"
type_synonym jstring = "nat list"

definition js :: "string \<Rightarrow> jstring" where
  "js s = map of_char s"

text \<open>
  Every \<^verbatim>\<open>throw\<close> of the source is a value of \<open>error\<close>. \<^verbatim>\<open>ShortageError\<close> is only ever
  constructed with a message: either the fixed text for empty material, or the text with
  the number of characters still needed. The plain \<^verbatim>\<open>Error\<close> objects are told apart by
  their message; \<open>InvalidCharacterError\<close> is the exception of \<^verbatim>\<open>atob\<close> and \<^verbatim>\<open>btoa\<close>.
\<close>

datatype shortage = EmptyMaterial | NeedMore nat

text \<open>
  A number that \<^verbatim>\<open>readInt\<close> can return: a double that holds a natural number, or
  \<^verbatim>\<open>Infinity\<close>.
\<close>

datatype number = Finite nat | Infinity

datatype error =
    TypeError
  | ConversionError
  | UnknownCodeError string
  | UnexpectedCountCodeError
  | UnexpectedOpCodeError
  | UnexpectedCodeError
  | ShortageError shortage
  | InvalidCharacterError
  | ValueOfError
  | CodeSizeNotDivisibleBy4
  | NonZeroPadBits int
  | NonZeroLeadBytes number
  | InvalidCodeSize
  | InvalidHexString
  | PopFrameError
  | UnsupportedSerialization jstring
  | UnsupportedHeader

section \<open>Numbers of the platform\<close>

text \<open>
  The numbers of JavaScript are doubles. \<open>toDouble n\<close> is the double nearest to the natural
  number \<open>n\<close>, with ties to the even significand: a number of at most 53 bits is kept,
  a longer one is rounded to its 53 leading bits. The exponent is not bounded here;
  \<open>roundNumber\<close> adds the bound: a result of \<open>2 ^ 1024\<close> or more is \<^verbatim>\<open>Infinity\<close>.
\<close>

fun bitLength :: "nat \<Rightarrow> nat" where
  "bitLength n = (if n = 0 then 0 else Suc (bitLength (n div 2)))"

definition toDouble :: "nat \<Rightarrow> nat" where
  "toDouble n =
     (if bitLength n \<le> 53 then n
      else (let e = bitLength n - 53; q = n div 2 ^ e; r = n mod 2 ^ e;
                q' = (if 2 * r > 2 ^ e \<or> (2 * r = 2 ^ e \<and> odd q) then q + 1 else q)
            in q' * 2 ^ e))"

definition roundNumber :: "nat \<Rightarrow> number" where
  "roundNumber n = (if 2 ^ 1024 \<le> toDouble n then Infinity else Finite (toDouble n))"

text \<open>
  \<^verbatim>\<open>x & m\<close> for a number \<open>x\<close> and a natural number \<open>m\<close>: both operands are taken as
  signed 32-bit integers, \<^verbatim>\<open>Infinity\<close> as 0.
\<close>

definition andInt32 :: "number \<Rightarrow> nat \<Rightarrow> int" where
  "andInt32 x m =
     (case x of
        Infinity \<Rightarrow> 0
      | Finite n \<Rightarrow> sint (and (of_nat n :: 32 word) (of_nat m)))"

section \<open>converters.js\<close>

text \<open>
  \<^verbatim>\<open>readInt\<close>: big-endian accumulation, \<^verbatim>\<open>value = value * 256 + array[i]\<close>, in doubles:
  the product is rounded, then the sum; \<^verbatim>\<open>Infinity\<close> stays \<^verbatim>\<open>Infinity\<close>.
\<close>

definition readInt_step :: "number \<Rightarrow> byte \<Rightarrow> number" where
  "readInt_step val b =
     (case val of
        Infinity \<Rightarrow> Infinity
      | Finite v \<Rightarrow>
          (case roundNumber (v * 256) of
             Infinity \<Rightarrow> Infinity
           | Finite w \<Rightarrow> roundNumber (w + unat b)))"

definition readInt :: "byte list \<Rightarrow> number" where
  "readInt array = foldl readInt_step (Finite 0) array"

section \<open>Array and string primitives of the platform\<close>

text \<open>\<^verbatim>\<open>slice(a, b)\<close> and \<^verbatim>\<open>slice(a)\<close> with non-negative arguments.\<close>

definition jslice :: "nat \<Rightarrow> nat \<Rightarrow> 'a list \<Rightarrow> 'a list" where
  "jslice a b xs = take (b - a) (drop a xs)"

text \<open>
  \<^verbatim>\<open>slice(0, e)\<close> where \<open>e\<close> may be negative: a negative end counts from the end of the
  array and stops at its start.
\<close>

definition jsliceTo :: "int \<Rightarrow> 'a list \<Rightarrow> 'a list" where
  "jsliceTo e xs = (if e < 0 then take (nat (int (length xs) + e)) xs else take (nat e) xs)"

text \<open>\<^verbatim>\<open>substring(a, b)\<close>: both ends are cut to the length and swapped when out of order.\<close>

definition substring :: "nat \<Rightarrow> nat \<Rightarrow> 'a list \<Rightarrow> 'a list" where
  "substring a b s =
     (let a' = min a (length s); b' = min b (length s)
      in take (max a' b' - min a' b') (drop (min a' b') s))"

text \<open>\<^verbatim>\<open>indexOf\<close> of a one-element string; \<open>None\<close> stands for \<open>-1\<close>.\<close>

fun indexOf :: "'a list \<Rightarrow> 'a \<Rightarrow> nat option" where
  "indexOf [] c = None"
| "indexOf (x # xs) c = (if x = c then Some 0 else map_option Suc (indexOf xs c))"

text \<open>\<^verbatim>\<open>replace(/x/g, y)\<close> for single code units.\<close>

definition replaceAll :: "nat \<Rightarrow> nat \<Rightarrow> jstring \<Rightarrow> jstring" where
  "replaceAll x y s = map (\<lambda>c. if c = x then y else c) s"

subsection \<open>\<^verbatim>\<open>btoa\<close> and \<^verbatim>\<open>atob\<close>\<close>

text \<open>
  The two browser functions follow the HTML standard. \<^verbatim>\<open>btoa\<close> refuses a code unit above
  255, cuts the octets into 6-bit groups, writes each in the standard alphabet and pads
  with \<open>=\<close> to a multiple of four. \<^verbatim>\<open>atob\<close> (forgiving decode) removes ASCII whitespace,
  removes one or two trailing \<open>=\<close> when the length is a multiple of four, fails when the
  length is then 1 modulo 4 or a code unit is outside the alphabet, and drops the bits
  left over in the last group.
\<close>

definition b64std :: jstring where
  "b64std = js ''ABCDEFGHIJKLMNOPQRSTUVWXYZabcdefghijklmnopqrstuvwxyz0123456789+/''"

definition eqSign :: nat where
  "eqSign = 61"

fun sextets :: "nat list \<Rightarrow> nat list" where
  "sextets (a # b # c # rest) =
     [a div 4, (a mod 4) * 16 + b div 16, (b mod 16) * 4 + c div 64, c mod 64] @ sextets rest"
| "sextets [a, b] = [a div 4, (a mod 4) * 16 + b div 16, (b mod 16) * 4]"
| "sextets [a] = [a div 4, (a mod 4) * 16]"
| "sextets [] = []"

definition btoa :: "jstring \<Rightarrow> error + jstring" where
  "btoa s =
     (if list_ex (\<lambda>c. 255 < c) s then Inl InvalidCharacterError
      else Inr (map (\<lambda>v. b64std ! v) (sextets s)
                @ replicate ((3 - length s mod 3) mod 3) eqSign))"

fun octets :: "nat list \<Rightarrow> nat list" where
  "octets (a # b # c # d # rest) =
     [a * 4 + b div 16, (b mod 16) * 16 + c div 4, (c mod 4) * 64 + d] @ octets rest"
| "octets [a, b, c] = [a * 4 + b div 16, (b mod 16) * 16 + c div 4]"
| "octets [a, b] = [a * 4 + b div 16]"
| "octets [a] = []"
| "octets [] = []"

definition asciiWhitespace :: "nat \<Rightarrow> bool" where
  "asciiWhitespace c = (c = 9 \<or> c = 10 \<or> c = 12 \<or> c = 13 \<or> c = 32)"

definition dropLastEq :: "jstring \<Rightarrow> jstring" where
  "dropLastEq d = (if d \<noteq> [] \<and> last d = eqSign then butlast d else d)"

definition atob :: "jstring \<Rightarrow> error + jstring" where
  "atob data0 =
     (let data1 = filter (\<lambda>c. \<not> asciiWhitespace c) data0;
          data2 = (if length data1 mod 4 = 0 then dropLastEq (dropLastEq data1) else data1)
      in if length data2 mod 4 = 1 then Inl InvalidCharacterError
         else if list_ex (\<lambda>c. indexOf b64std c = None) data2 then Inl InvalidCharacterError
         else Inr (octets (map (\<lambda>c. the (indexOf b64std c)) data2)))"

section \<open>base64.js\<close>

definition BASE64 :: jstring where
  "BASE64 = js ''ABCDEFGHIJKLMNOPQRSTUVWXYZabcdefghijklmnopqrstuvwxyz0123456789-_''"

text \<open>\<^verbatim>\<open>Base64.valueOf\<close>: the position in the URL-safe alphabet, or a plain \<^verbatim>\<open>Error\<close>.\<close>

definition Base64_valueOf :: "nat \<Rightarrow> error + nat" where
  "Base64_valueOf ch = (case indexOf BASE64 ch of None \<Rightarrow> Inl ValueOfError | Some r \<Rightarrow> Inr r)"

text \<open>
  \<^verbatim>\<open>Base64.toInt\<close>: \<^verbatim>\<open>result <<= 6; result |= valueOf(ch)\<close> on 32-bit integers. The
  shift keeps the low 32 bits and the result is read as a signed 32-bit number.
\<close>

fun Base64_toInt_loop :: "32 word \<Rightarrow> jstring \<Rightarrow> error + 32 word" where
  "Base64_toInt_loop result [] = Inr result"
| "Base64_toInt_loop result (ch # rest) =
     (case Base64_valueOf ch of
        Inl e \<Rightarrow> Inl e
      | Inr v \<Rightarrow> Base64_toInt_loop (or (push_bit 6 result) (of_nat v)) rest)"

definition Base64_toInt :: "jstring \<Rightarrow> error + int" where
  "Base64_toInt val = map_sum id sint (Base64_toInt_loop 0 val)"

text \<open>
  \<^verbatim>\<open>Base64.decodeBase64Url\<close>: bytes to a string by \<^verbatim>\<open>String.fromCharCode\<close>, \<open>-\<close> to \<open>+\<close>
  and \<open>_\<close> to \<open>/\<close>, \<open>=\<close> appended up to a multiple of four, \<^verbatim>\<open>atob\<close>, and the code units of
  the result as bytes.
\<close>

definition decodeBase64Url :: "byte list \<Rightarrow> error + byte list" where
  "decodeBase64Url array =
     (let base64UrlString = map unat array;
          base64String = replaceAll 95 47 (replaceAll 45 43 base64UrlString);
          modRemainder = length base64String mod 4;
          padCharCount = (if modRemainder > 0 then 4 - modRemainder else 0);
          paddedB64Str = base64String @ replicate padCharCount eqSign
      in case atob paddedB64Str of
           Inl e \<Rightarrow> Inl e
         | Inr binaryString \<Rightarrow> Inr (map of_nat binaryString))"

text \<open>\<^verbatim>\<open>replace(/=+$/, '')\<close>: every trailing \<open>=\<close> is removed.\<close>

definition stripTrailingEq :: "jstring \<Rightarrow> jstring" where
  "stripTrailingEq s = rev (dropWhile (\<lambda>c. c = eqSign) (rev s))"

definition encodeBase64Url :: "byte list \<Rightarrow> bool \<Rightarrow> error + jstring" where
  "encodeBase64Url array strip =
     (let binaryString = map unat array
      in case btoa binaryString of
           Inl e \<Rightarrow> Inl e
         | Inr base64String \<Rightarrow>
             (let base64UrlString = replaceAll 47 95 (replaceAll 43 45 base64String)
              in if strip then Inr (stripTrailingEq base64UrlString)
                 else Inr base64UrlString))"

section \<open>utf8.js\<close>

text \<open>
  \<^verbatim>\<open>Utf8.encode\<close> is \<^verbatim>\<open>TextEncoder.encode\<close>: a surrogate pair becomes four bytes, a lone
  surrogate the three bytes of U+FFFD.
\<close>

definition highSurrogate :: "nat \<Rightarrow> bool" where
  "highSurrogate u = (55296 \<le> u \<and> u < 56320)"

definition lowSurrogate :: "nat \<Rightarrow> bool" where
  "lowSurrogate u = (56320 \<le> u \<and> u < 57344)"

definition replacementBytes :: "byte list" where
  "replacementBytes = [239, 191, 189]"

definition utf8_bytes :: "nat \<Rightarrow> byte list" where
  "utf8_bytes cp =
     (if cp < 128 then [of_nat cp]
      else if cp < 2048 then [of_nat (192 + cp div 64), of_nat (128 + cp mod 64)]
      else if cp < 65536 then
        [of_nat (224 + cp div 4096), of_nat (128 + (cp div 64) mod 64), of_nat (128 + cp mod 64)]
      else
        [of_nat (240 + cp div 262144), of_nat (128 + (cp div 4096) mod 64),
         of_nat (128 + (cp div 64) mod 64), of_nat (128 + cp mod 64)])"

fun Utf8_encode :: "jstring \<Rightarrow> byte list" where
  "Utf8_encode [] = []"
| "Utf8_encode [u] =
     (if highSurrogate u \<or> lowSurrogate u then replacementBytes else utf8_bytes u)"
| "Utf8_encode (u # v # rest) =
     (if highSurrogate u \<and> lowSurrogate v then
        utf8_bytes (65536 + (u - 55296) * 1024 + (v - 56320)) @ Utf8_encode rest
      else if highSurrogate u \<or> lowSurrogate u then replacementBytes @ Utf8_encode (v # rest)
      else utf8_bytes u @ Utf8_encode (v # rest))"

text \<open>
  \<^verbatim>\<open>Utf8.decode\<close> is \<^verbatim>\<open>TextDecoder.decode\<close> for UTF-8, not fatal: the decoder of the
  Encoding standard. The state is the code point so far, the bytes seen and needed and
  the bounds of the next continuation byte; a malformed sequence gives U+FFFD and the
  offending byte is read again as the start of a sequence. A leading byte order mark is
  dropped.
\<close>

record utf8_state =
  codePoint :: nat
  bytesSeen :: nat
  bytesNeeded :: nat
  lowerBoundary :: nat
  upperBoundary :: nat

definition utf8_initial :: utf8_state where
  "utf8_initial = \<lparr>codePoint = 0, bytesSeen = 0, bytesNeeded = 0,
                    lowerBoundary = 128, upperBoundary = 191\<rparr>"

definition utf8_emit :: "nat \<Rightarrow> jstring" where
  "utf8_emit cp =
     (if cp < 65536 then [cp]
      else [55296 + (cp - 65536) div 1024, 56320 + (cp - 65536) mod 1024])"

definition utf8_lead :: "nat \<Rightarrow> jstring \<times> utf8_state" where
  "utf8_lead x =
     (if x < 128 then ([x], utf8_initial)
      else if 194 \<le> x \<and> x \<le> 223 then
        ([], utf8_initial\<lparr>bytesNeeded := 1, codePoint := x mod 32\<rparr>)
      else if 224 \<le> x \<and> x \<le> 239 then
        ([], utf8_initial\<lparr>bytesNeeded := 2, codePoint := x mod 16,
                            lowerBoundary := (if x = 224 then 160 else 128),
                            upperBoundary := (if x = 237 then 159 else 191)\<rparr>)
      else if 240 \<le> x \<and> x \<le> 244 then
        ([], utf8_initial\<lparr>bytesNeeded := 3, codePoint := x mod 8,
                            lowerBoundary := (if x = 240 then 144 else 128),
                            upperBoundary := (if x = 244 then 143 else 191)\<rparr>)
      else ([65533], utf8_initial))"

fun utf8_run :: "utf8_state \<Rightarrow> byte list \<Rightarrow> jstring" where
  "utf8_run st [] = (if bytesNeeded st \<noteq> 0 then [65533] else [])"
| "utf8_run st (b # bs) =
     (let x = unat b in
      if bytesNeeded st = 0 then
        (case utf8_lead x of (out, st') \<Rightarrow> out @ utf8_run st' bs)
      else if x < lowerBoundary st \<or> upperBoundary st < x then
        (case utf8_lead x of (out, st') \<Rightarrow> 65533 # out @ utf8_run st' bs)
      else if bytesSeen st + 1 = bytesNeeded st then
        utf8_emit (codePoint st * 64 + x mod 64) @ utf8_run utf8_initial bs
      else
        utf8_run (st\<lparr>codePoint := codePoint st * 64 + x mod 64,
                      bytesSeen := bytesSeen st + 1,
                      lowerBoundary := 128, upperBoundary := 191\<rparr>) bs)"

definition Utf8_decode :: "byte list \<Rightarrow> jstring" where
  "Utf8_decode bs =
     utf8_run utf8_initial (if take 3 bs = [239, 187, 191] then drop 3 bs else bs)"

section \<open>hex.js\<close>

definition HEX :: jstring where
  "HEX = js ''0123456789ABCDEF''"

definition Hex_valueOf :: "nat \<Rightarrow> error + nat" where
  "Hex_valueOf ch = (case indexOf HEX ch of None \<Rightarrow> Inl ValueOfError | Some r \<Rightarrow> Inr r)"

text \<open>
  \<^verbatim>\<open>toUpperCase\<close> on the code units \<open>a\<close> to \<open>z\<close>. The only caller of \<^verbatim>\<open>Hex.toInt\<close>
  passes characters matched by \<^verbatim>\<open>\w\<close>, so other letters do not occur.
\<close>

definition toUpperCase :: "jstring \<Rightarrow> jstring" where
  "toUpperCase s = map (\<lambda>c. if 97 \<le> c \<and> c \<le> 122 then c - 32 else c) s"

fun Hex_toInt_loop :: "32 word \<Rightarrow> jstring \<Rightarrow> error + 32 word" where
  "Hex_toInt_loop result [] = Inr result"
| "Hex_toInt_loop result (ch # rest) =
     (case Hex_valueOf ch of
        Inl e \<Rightarrow> Inl e
      | Inr v \<Rightarrow> Hex_toInt_loop (or (push_bit 4 result) (of_nat v)) rest)"

definition Hex_toInt :: "jstring \<Rightarrow> error + int" where
  "Hex_toInt val = map_sum id sint (Hex_toInt_loop 0 (toUpperCase val))"

text \<open>\<^verbatim>\<open>byte.toString(16).padStart(2, '0')\<close>, joined.\<close>

definition hexDigits :: jstring where
  "hexDigits = js ''0123456789abcdef''"

definition Hex_encode :: "byte list \<Rightarrow> jstring" where
  "Hex_encode uint8Array =
     concat (map (\<lambda>byte. [hexDigits ! (unat byte div 16), hexDigits ! (unat byte mod 16)])
                 uint8Array)"

text \<open>
  \<^verbatim>\<open>parseInt(s, 16)\<close>: leading white space and one sign are skipped, then \<open>0x\<close> or \<open>0X\<close>,
  and the longest run of hexadecimal digits is read; no digit at all gives \<^verbatim>\<open>NaN\<close>
  (\<open>None\<close>). What follows the digits is ignored.
\<close>

definition strWhiteSpace :: "nat \<Rightarrow> bool" where
  "strWhiteSpace c =
     (c \<in> {9, 10, 11, 12, 13, 32, 160, 5760, 8232, 8233, 8239, 8287, 12288, 65279}
      \<or> (8192 \<le> c \<and> c \<le> 8202))"

definition hexDigitValue :: "nat \<Rightarrow> nat option" where
  "hexDigitValue c =
     (if 48 \<le> c \<and> c \<le> 57 then Some (c - 48)
      else if 65 \<le> c \<and> c \<le> 70 then Some (c - 55)
      else if 97 \<le> c \<and> c \<le> 102 then Some (c - 87)
      else None)"

definition parseInt16 :: "jstring \<Rightarrow> int option" where
  "parseInt16 s =
     (let s1 = dropWhile strWhiteSpace s;
          sign = (if s1 \<noteq> [] \<and> hd s1 = 45 then - 1 else 1 :: int);
          s2 = (if s1 \<noteq> [] \<and> (hd s1 = 43 \<or> hd s1 = 45) then tl s1 else s1);
          s3 = (if take 2 s2 = js ''0x'' \<or> take 2 s2 = js ''0X'' then drop 2 s2 else s2);
          z = takeWhile (\<lambda>c. hexDigitValue c \<noteq> None) s3
      in if z = [] then None
         else Some (sign * int (foldl (\<lambda>v c. v * 16 + the (hexDigitValue c)) 0 z)))"

text \<open>
  The number \<^verbatim>\<open>parseInt\<close> returns is the double nearest to the integer read (\<open>toDouble\<close>);
  storing it in a \<^verbatim>\<open>Uint8Array\<close> keeps it modulo 256, and stores 0 for \<^verbatim>\<open>NaN\<close>.
\<close>

definition toUint8 :: "int option \<Rightarrow> byte" where
  "toUint8 v = (case v of None \<Rightarrow> 0 | Some i \<Rightarrow> of_int (sgn i * int (toDouble (nat \<bar>i\<bar>))))"

text \<open>
  \<^verbatim>\<open>Hex.decode\<close>: the loop variable \<open>i\<close> takes the even positions, and the text read at
  each is \<^verbatim>\<open>hexString.substring(i, 2)\<close>, as the source has it.
\<close>

definition Hex_decode :: "jstring \<Rightarrow> error + byte list" where
  "Hex_decode hexString =
     (if length hexString mod 2 \<noteq> 0 then Inl InvalidHexString
      else Inr (map (\<lambda>k. toUint8 (parseInt16 (substring (2 * k) 2 hexString)))
                    [0 ..< length hexString div 2]))"

section \<open>cesr-tables.js (not in the sources): the tables as parameters\<close>

text \<open>
  The module that holds the code tables is generated from the reference implementation
  and is not part of the sources. What the parser reads of it is taken as a parameter:
  the hard-size tables of the matter and counter codes and the two start characters.
\<close>

record hards =
  MatterHards :: "jstring \<Rightarrow> nat option"
  CounterHards :: "jstring \<Rightarrow> nat option"
  CountCodeStart :: nat
  OpCodeStart :: nat

text \<open>
  An entry of a code table, as \<^verbatim>\<open>cesr-schema.js\<close> and the parser read it: the table
  types, \<^verbatim>\<open>default_size\<close> (\<open>hs\<close> and the optional \<open>ss\<close>, \<open>os\<close>, \<open>ls\<close>), the optional
  \<^verbatim>\<open>sizes\<close> (\<open>hs\<close>, \<open>ss\<close>, \<open>ls\<close> and the optional \<open>fs\<close>), the name and the optional
  \<^verbatim>\<open>counter\<close> object with its optional \<open>count\<close> and \<open>context\<close>.
\<close>

record default_size =
  d_hs :: nat
  d_ss :: "nat option"
  d_os :: "nat option"
  d_ls :: "nat option"

record sizes =
  sz_hs :: nat
  sz_ss :: nat
  sz_fs :: "nat option"
  sz_ls :: nat

record counter =
  c_count :: "jstring option"
  c_context :: "jstring list option"

record codeSpec =
  table_type :: "jstring list"
  spec_default_size :: default_size
  spec_sizes :: "sizes option"
  spec_name :: jstring
  spec_counter :: "counter option"

section \<open>cesr.js\<close>

definition Serials_json :: jstring where
  "Serials_json = js ''JSON''"

text \<open>
  \<^verbatim>\<open>CesrVersionHeader\<close> as \<^verbatim>\<open>getJsonFrame\<close> builds it (no table); its \<open>size\<close> is a getter,
  \<open>vh_size\<close> below. \<^verbatim>\<open>CesrDerivationCode\<close> with its optional fields; \<open>dc_serial\<close> is the
  property the stream decoder adds.
\<close>

record CesrVersionHeader =
  vh_value :: jstring
  vh_serial :: jstring
  vh_proto :: jstring
  vh_digits :: jstring

record CesrDerivationCode =
  dc_table :: codeSpec
  dc_value :: jstring
  dc_selector :: jstring
  dc_type :: jstring
  dc_digits :: "jstring option"
  dc_typeName :: jstring
  dc_leadBytes :: "nat option"
  dc_size :: "int option"
  dc_count :: "int option"
  dc_quadlets :: "int option"
  dc_version :: "jstring option"
  dc_index :: "int option"
  dc_ondex :: "int option"
  dc_serial :: "jstring option"

datatype header = VersionHeader CesrVersionHeader | DerivationCode CesrDerivationCode

definition vh_size :: "CesrVersionHeader \<Rightarrow> error + int" where
  "vh_size h = Hex_toInt (vh_digits h)"

text \<open>The \<^verbatim>\<open>length\<close> getter of both headers: the length of \<open>value\<close>.\<close>

definition header_length :: "header \<Rightarrow> nat" where
  "header_length h =
     (case h of VersionHeader v \<Rightarrow> length (vh_value v)
              | DerivationCode d \<Rightarrow> length (dc_value d))"

text \<open>
  The protocols: the base class \<^verbatim>\<open>CesrProtocol\<close>, whose methods are the defaults, and
  \<^verbatim>\<open>CesrSchemaProtocol\<close> with its tables (a context for each list of names) and its
  context, of which only \<^verbatim>\<open>lookup\<close> is used.
\<close>

datatype protocol =
    CesrProtocol
  | CesrSchemaProtocol "jstring list \<Rightarrow> jstring \<Rightarrow> codeSpec option" "jstring \<Rightarrow> codeSpec option"

section \<open>cesr-schema.js\<close>

definition getSelectorSize :: "protocol \<Rightarrow> jstring \<Rightarrow> nat" where
  "getSelectorSize p selector = (case p of CesrProtocol \<Rightarrow> 1 | CesrSchemaProtocol t c \<Rightarrow> 8)"

definition getCodeTable :: "protocol \<Rightarrow> jstring \<Rightarrow> error + codeSpec" where
  "getCodeTable p selector =
     (case p of
        CesrProtocol \<Rightarrow> Inl (UnknownCodeError ''getCodeTable'')
      | CesrSchemaProtocol t c \<Rightarrow>
          (case c selector of
             None \<Rightarrow> Inl (UnknownCodeError ''getCodeTable'')
           | Some spec \<Rightarrow> Inr spec))"

definition isFixedSize :: "codeSpec \<Rightarrow> bool" where
  "isFixedSize spec = (js ''FixedSize'' \<in> set (table_type spec))"

definition isVariableSize :: "codeSpec \<Rightarrow> bool" where
  "isVariableSize spec = (js ''VariableSize'' \<in> set (table_type spec))"

definition isIndexer :: "codeSpec \<Rightarrow> bool" where
  "isIndexer spec = (js ''Indexer'' \<in> set (table_type spec))"

definition isCounter :: "codeSpec \<Rightarrow> bool" where
  "isCounter spec = (js ''Counter'' \<in> set (table_type spec))"

definition isVersion :: "codeSpec \<Rightarrow> bool" where
  "isVersion spec = (js ''Version'' \<in> set (table_type spec))"

definition codeSize :: "codeSpec \<Rightarrow> nat" where
  "codeSize spec =
     d_hs (spec_default_size spec)
       + (case d_ss (spec_default_size spec) of None \<Rightarrow> 0 | Some n \<Rightarrow> n)"

text \<open>\<^verbatim>\<open>Base64.toInt(header.digits)\<close>: iterating over absent digits is a \<^verbatim>\<open>TypeError\<close>.\<close>

definition digitsToInt :: "jstring option \<Rightarrow> error + int" where
  "digitsToInt d = (case d of None \<Rightarrow> Inl TypeError | Some t \<Rightarrow> Base64_toInt t)"

definition hasCount :: "codeSpec \<Rightarrow> bool" where
  "hasCount spec =
     (case spec_counter spec of None \<Rightarrow> False | Some c \<Rightarrow> c_count c \<noteq> None)"

definition mapCount :: "codeSpec \<Rightarrow> jstring option \<Rightarrow> error + (int option \<times> int option)" where
  "mapCount spec digits =
     (if isCounter spec then
        (if hasCount spec then
           (case digitsToInt digits of
              Inl e \<Rightarrow> Inl e
            | Inr n \<Rightarrow>
                (let m = the (c_count (the (spec_counter spec)))
                 in if m = js ''*1'' then Inr (Some (n * 1), None)
                    else if m = js ''*2'' then Inr (Some (n * 2), None)
                    else if m = js ''*3'' then Inr (Some (n * 3), None)
                    else if m = js ''*4'' then Inr (Some (n * 4), None)
                    else if m = js ''*2+1'' then Inr (Some (n * 2 + 1), None)
                    else Inl (UnknownCodeError ''mapCodeHeader'')))
         else
           (case digitsToInt digits of
              Inl e \<Rightarrow> Inl e
            | Inr n \<Rightarrow> Inr (Some n, Some n)))
      else Inr (None, None))"

definition mapIndex :: "codeSpec \<Rightarrow> jstring option \<Rightarrow> error + (int option \<times> int option)" where
  "mapIndex spec digits =
     (if isIndexer spec then
        (case d_os (spec_default_size spec) of
           Some os \<Rightarrow>
             (if os > 0 then
                (case digits of
                   None \<Rightarrow> Inl TypeError
                 | Some t \<Rightarrow>
                     (case Base64_toInt (jslice 0 os t) of
                        Inl e \<Rightarrow> Inl e
                      | Inr i \<Rightarrow>
                          (case Base64_toInt (drop os t) of
                             Inl e \<Rightarrow> Inl e
                           | Inr j \<Rightarrow> Inr (Some i, Some j))))
              else map_sum id (\<lambda>i. (Some i, None)) (digitsToInt digits))
         | None \<Rightarrow> map_sum id (\<lambda>i. (Some i, None)) (digitsToInt digits))
      else Inr (None, None))"

text \<open>
  \<^verbatim>\<open>mapCodeHeader\<close>: the fields in the order the source fills them (size, then count and
  quadlets, then version, then index and ondex), so that the first failure is the
  source's.
\<close>

definition mapCodeHeader :: "codeSpec \<Rightarrow> jstring \<Rightarrow> error + CesrDerivationCode" where
  "mapCodeHeader spec code =
     (let h_value = jslice 0 (codeSize spec) code;
          h_selector = jslice 0 (d_hs (spec_default_size spec)) code;
          h_digits = (if d_ss (spec_default_size spec) \<noteq> None
                      then Some (jslice (d_hs (spec_default_size spec)) (codeSize spec) code)
                      else None);
          h_leadBytes = (if isFixedSize spec \<or> isVariableSize spec
                         then d_ls (spec_default_size spec) else None)
      in case (if isVariableSize spec then map_sum id Some (digitsToInt h_digits)
               else Inr None) of
           Inl e \<Rightarrow> Inl e
         | Inr h_size \<Rightarrow>
             (case mapCount spec h_digits of
                Inl e \<Rightarrow> Inl e
              | Inr (h_count, h_quadlets) \<Rightarrow>
                  (case mapIndex spec h_digits of
                     Inl e \<Rightarrow> Inl e
                   | Inr (h_index, h_ondex) \<Rightarrow>
                       Inr \<lparr>dc_table = spec, dc_value = h_value, dc_selector = h_selector,
                            dc_type = h_selector, dc_digits = h_digits,
                            dc_typeName = spec_name spec, dc_leadBytes = h_leadBytes,
                            dc_size = h_size, dc_count = h_count, dc_quadlets = h_quadlets,
                            dc_version = (if isVersion spec then h_digits else None),
                            dc_index = h_index, dc_ondex = h_ondex,
                            dc_serial = None\<rparr>)))"

text \<open>
  \<^verbatim>\<open>getTotalLength\<close>. The result is a number; \<open>None\<close> stands for \<^verbatim>\<open>NaN\<close>, which is what
  \<^verbatim>\<open>4 * code.size\<close> gives for a header without a size.
\<close>

definition getTotalLength :: "codeSpec \<Rightarrow> CesrDerivationCode \<Rightarrow> error + int option" where
  "getTotalLength spec code =
     (if isFixedSize spec then
        (case spec_sizes spec of
           None \<Rightarrow> Inl (UnknownCodeError ''getTotalLength'')
         | Some sz \<Rightarrow>
             (case sz_fs sz of
                None \<Rightarrow> Inl (UnknownCodeError ''getTotalLength'')
              | Some f \<Rightarrow> Inr (Some (int f))))
      else if isVariableSize spec then
        Inr (map_option (\<lambda>n. int (codeSize spec) + 4 * n) (dc_size code))
      else Inr (Some (int (codeSize spec))))"

definition isFrame :: "protocol \<Rightarrow> CesrDerivationCode \<Rightarrow> bool" where
  "isFrame p code =
     (case p of
        CesrProtocol \<Rightarrow> False
      | CesrSchemaProtocol t c \<Rightarrow>
          isCounter (dc_table code) \<and> spec_counter (dc_table code) \<noteq> None
            \<and> \<not> hasCount (dc_table code))"

definition isGroup :: "protocol \<Rightarrow> CesrDerivationCode \<Rightarrow> bool" where
  "isGroup p code =
     (case p of
        CesrProtocol \<Rightarrow> False
      | CesrSchemaProtocol t c \<Rightarrow>
          isCounter (dc_table code) \<and> spec_counter (dc_table code) \<noteq> None
            \<and> hasCount (dc_table code))"

definition hasContext :: "protocol \<Rightarrow> CesrDerivationCode \<Rightarrow> bool" where
  "hasContext p code =
     (case p of
        CesrProtocol \<Rightarrow> False
      | CesrSchemaProtocol t c \<Rightarrow>
          isGroup p code \<and> c_context (the (spec_counter (dc_table code))) \<noteq> None)"

definition getContext :: "protocol \<Rightarrow> CesrDerivationCode \<Rightarrow> protocol option" where
  "getContext p code =
     (case p of
        CesrProtocol \<Rightarrow> None
      | CesrSchemaProtocol t c \<Rightarrow>
          (if hasContext p code
           then Some (CesrSchemaProtocol t
                        (t (the (c_context (the (spec_counter (dc_table code)))))))
           else None))"

section \<open>The parser, newer module\<close>

text \<open>The input of the parser is a string or a byte array.\<close>

datatype input = Str jstring | Bytes "byte list"

record CesrValue =
  cv_header :: header
  cv_value :: "byte list"

definition toBytes :: "input \<Rightarrow> byte list" where
  "toBytes inp = (case inp of Str s \<Rightarrow> Utf8_encode s | Bytes b \<Rightarrow> b)"

text \<open>
  \<^verbatim>\<open>getCesrValue\<close>. A total that is \<^verbatim>\<open>NaN\<close> or negative passes the first comparison and
  fails the second, since \<^verbatim>\<open>slice\<close> then returns fewer bytes.
\<close>

definition getCesrValue :: "protocol \<Rightarrow> input \<Rightarrow> error + CesrValue" where
  "getCesrValue p inp =
     (let selector = (case inp of Str s \<Rightarrow> jslice 0 8 s
                                | Bytes b \<Rightarrow> Utf8_decode (jslice 0 8 b));
          bytes = toBytes inp;
          selectorSize = getSelectorSize p selector
      in if selectorSize > length selector then Inl (UnknownCodeError ''getCesrValue'')
         else
           (case getCodeTable p (jslice 0 selectorSize selector) of
              Inl e \<Rightarrow> Inl e
            | Inr table \<Rightarrow>
                (if codeSize table > length selector then Inl (UnknownCodeError ''getCesrValue'')
                 else
                   (case mapCodeHeader table (jslice 0 (codeSize table) selector) of
                      Inl e \<Rightarrow> Inl e
                    | Inr code \<Rightarrow>
                        (case getTotalLength table code of
                           Inl e \<Rightarrow> Inl e
                         | Inr None \<Rightarrow> Inl (UnknownCodeError ''getCesrValue'')
                         | Inr (Some tot) \<Rightarrow>
                             (if tot > int (length bytes)
                              then Inl (UnknownCodeError ''getCesrValue'')
                              else (let val = jsliceTo tot bytes
                                    in if tot \<noteq> int (length val)
                                       then Inl (UnknownCodeError ''getCesrValue'')
                                       else Inr \<lparr>cv_header = DerivationCode code,
                                                 cv_value = val\<rparr>)))))))"

text \<open>
  The pattern \<^verbatim>\<open>/^{"\w{1}":"(\w{16})_"/\<close>: the match, if any, covers the first 24 code
  units, and the group is the 16 word characters from position 6.
\<close>

definition wordChar :: "nat \<Rightarrow> bool" where
  "wordChar c = ((48 \<le> c \<and> c \<le> 57) \<or> (65 \<le> c \<and> c \<le> 90) \<or> c = 95 \<or> (97 \<le> c \<and> c \<le> 122))"

definition versionStrPattern :: "jstring \<Rightarrow> jstring option" where
  "versionStrPattern t =
     (if 24 \<le> length t \<and> take 2 t = js ''{\"'' \<and> wordChar (t ! 2)
         \<and> jslice 3 6 t = js ''\":\"'' \<and> list_all wordChar (jslice 6 22 t)
         \<and> jslice 22 24 t = js ''_\"''
      then Some (jslice 6 22 t) else None)"

text \<open>
  \<^verbatim>\<open>getJsonFrame\<close>. For a kind other than \<open>JSON\<close> the message of the error is made with
  \<^verbatim>\<open>JSON.stringify(code)\<close>, which reads the enumerable getter \<open>size\<close>: a digit that is not
  hexadecimal makes the getter throw the plain error of \<^verbatim>\<open>Hex.valueOf\<close> before the
  \<^verbatim>\<open>UnknownCodeError\<close> is built. The statement that compares \<^verbatim>\<open>code.size\<close> with the length
  of the input evaluates the getter (which can fail in the same way) and then only
  constructs an error object: nothing is thrown there, so the function goes on to the
  \<^verbatim>\<open>slice\<close>.
\<close>

definition getJsonFrame :: "byte list \<Rightarrow> error + CesrValue" where
  "getJsonFrame bytes =
     (let versionStrHeader = Utf8_decode (jslice 0 24 bytes)
      in case versionStrPattern versionStrHeader of
           None \<Rightarrow> Inl (UnknownCodeError ''getJsonFrame'')
         | Some versionStr \<Rightarrow>
             (let code = \<lparr>vh_value = versionStr, vh_serial = jslice 6 10 versionStr,
                          vh_proto = jslice 0 6 versionStr,
                          vh_digits = jslice 10 16 versionStr\<rparr>
              in if Serials_json \<noteq> vh_serial code
                 then (case vh_size code of
                         Inl e \<Rightarrow> Inl e
                       | Inr size' \<Rightarrow> Inl (UnknownCodeError ''getJsonFrame''))
                 else
                   (case vh_size code of
                      Inl e \<Rightarrow> Inl e
                    | Inr size' \<Rightarrow>
                        (let constructed = (if size' > int (length bytes)
                                            then Some (UnknownCodeError ''getJsonFrame'')
                                            else None)
                         in Inr \<lparr>cv_header = VersionHeader code,
                                  cv_value = jsliceTo size' bytes\<rparr>))))"

text \<open>
  \<^verbatim>\<open>fromMatterQB64b\<close>. Two parts of the function stand on their own: \<open>fullSize\<close> is the
  computation of \<open>fs\<close> from the sizes of the table and, for a code without a fixed size,
  from the size characters of the input; \<open>exfilRaw\<close> followed by \<open>checkRawLength\<close> is the
  last part of the function, from the pad size to the length check, with the sliced
  bytes.
\<close>

definition exfilRaw :: "nat \<Rightarrow> nat \<Rightarrow> byte list \<Rightarrow> error + byte list" where
  "exfilRaw cs ls qb64b =
     (let ps = cs mod 4;
          pbs = 2 * (if ps \<noteq> 0 then ps else ls)
      in if ps > 0 then
           (let padding = replicate ps (65 :: byte);
                base = padding @ drop cs qb64b
            in case decodeBase64Url base of
                 Inl e \<Rightarrow> Inl e
               | Inr paw \<Rightarrow>
                   (let pi = readInt (jslice 0 ps paw)
                    in if andInt32 pi (2 ^ pbs - 1) \<noteq> 0
                       then Inl (NonZeroPadBits (andInt32 pi (2 ^ pbs - 1)))
                       else Inr (drop ps paw)))
         else
           (let base = drop cs qb64b
            in case decodeBase64Url base of
                 Inl e \<Rightarrow> Inl e
               | Inr paw \<Rightarrow>
                   (let li = readInt (jslice 0 ls paw)
                    in if li \<noteq> Finite 0 then Inl (NonZeroLeadBytes li)
                       else Inr (drop ls paw))))"

definition checkRawLength :: "nat \<Rightarrow> nat \<Rightarrow> byte list \<Rightarrow> byte list \<Rightarrow> bool" where
  "checkRawLength cs ls qb64b raw =
     (int (length raw) = ((int (length qb64b) - int cs) * 3) div 4 - int ls)"

definition fullSize :: "sizes \<Rightarrow> byte list \<Rightarrow> error + int" where
  "fullSize sz qb64b =
     (let cs = sz_hs sz + sz_ss sz
      in case sz_fs sz of
           Some f \<Rightarrow> Inr (int f)
         | None \<Rightarrow>
             (if cs mod 4 \<noteq> 0 then Inl CodeSizeNotDivisibleBy4
              else map_sum id (\<lambda>size'. size' * 4 + int cs)
                     (Base64_toInt (Utf8_decode (jslice (sz_hs sz) cs qb64b)))))"

definition fromMatterQB64b ::
  "hards \<Rightarrow> input \<Rightarrow> protocol \<Rightarrow> error + (jstring \<times> int \<times> byte list)" where
  "fromMatterQB64b H inp p =
     (let qb64b = toBytes inp
      in if qb64b = [] then Inl (ShortageError EmptyMaterial)
         else
           (let first = Utf8_decode (jslice 0 1 qb64b)
            in case MatterHards H first of
                 None \<Rightarrow>
                   (if take 1 first = [CountCodeStart H] then Inl UnexpectedCountCodeError
                    else if take 1 first = [OpCodeStart H] then Inl UnexpectedOpCodeError
                    else Inl UnexpectedCodeError)
               | Some hardSize \<Rightarrow>
                   (if length qb64b < hardSize
                    then Inl (ShortageError (NeedMore (hardSize - length qb64b)))
                    else
                      (let hard = Utf8_decode (jslice 0 hardSize qb64b)
                       in case getCodeTable p hard of
                            Inl e \<Rightarrow> Inl e
                          | Inr table \<Rightarrow>
                              (case spec_sizes table of
                                 None \<Rightarrow> Inl TypeError
                               | Some sz \<Rightarrow>
                                   (let cs = sz_hs sz + sz_ss sz
                                    in case fullSize sz qb64b of
                                         Inl e \<Rightarrow> Inl e
                                       | Inr fs' \<Rightarrow>
                                           (if int (length qb64b) < fs'
                                            then Inl (ShortageError
                                                        (NeedMore (nat (fs' - int (length qb64b)))))
                                            else
                                              (let qb64b' = jsliceTo fs' qb64b
                                               in case exfilRaw cs (sz_ls sz) qb64b' of
                                                    Inl e \<Rightarrow> Inl e
                                                  | Inr raw \<Rightarrow>
                                                      (if \<not> checkRawLength cs (sz_ls sz) qb64b' raw
                                                       then Inl ConversionError
                                                       else Inr (hard, fs', raw))))))))))"

text \<open>\<^verbatim>\<open>toMatterQB64b\<close>.\<close>

definition toMatterQB64b :: "byte list \<Rightarrow> jstring \<Rightarrow> protocol \<Rightarrow> error + byte list" where
  "toMatterQB64b raw code p =
     (case getCodeTable p code of
        Inl e \<Rightarrow> Inl e
      | Inr table \<Rightarrow>
          (case spec_sizes table of
             None \<Rightarrow> Inl TypeError
           | Some sz \<Rightarrow>
               (let cs = sz_hs sz + sz_ss sz;
                    rs = length raw;
                    ps = (3 - ((rs + sz_ls sz) mod 3)) mod 3
                in if int (cs mod 4) \<noteq> int ps - int (sz_ls sz) then Inl InvalidCodeSize
                   else
                     (let prepad = replicate (ps + sz_ls sz) (0 :: byte);
                          paddedRaw = prepad @ raw
                      in case encodeBase64Url paddedRaw True of
                           Inl e \<Rightarrow> Inl e
                         | Inr b64Padded \<Rightarrow>
                             (let unpaddedB64 = drop (cs mod 4) b64Padded
                              in Inr (Utf8_encode (code @ unpaddedB64)))))))"

text \<open>
  \<^verbatim>\<open>fromCounterQB64b\<close>. Without \<open>fs\<close> the comparison with \<^verbatim>\<open>undefined\<close> is false and the
  slice runs to the end.
\<close>

definition fromCounterQB64b :: "hards \<Rightarrow> input \<Rightarrow> protocol \<Rightarrow> error + (jstring \<times> int)" where
  "fromCounterQB64b H inp p =
     (let qb64b = toBytes inp
      in if qb64b = [] then Inl (ShortageError EmptyMaterial)
         else
           (let first = Utf8_decode (jslice 0 2 qb64b)
            in case CounterHards H first of
                 None \<Rightarrow>
                   (if take 1 first = [OpCodeStart H] then Inl UnexpectedOpCodeError
                    else Inl UnexpectedCodeError)
               | Some hardSize \<Rightarrow>
                   (if length qb64b < hardSize
                    then Inl (ShortageError (NeedMore (hardSize - length qb64b)))
                    else
                      (let hard = Utf8_decode (jslice 0 hardSize qb64b)
                       in case getCodeTable p hard of
                            Inl e \<Rightarrow> Inl e
                          | Inr table \<Rightarrow>
                              (case spec_sizes table of
                                 None \<Rightarrow> Inl TypeError
                               | Some sz \<Rightarrow>
                                   (case sz_fs sz of
                                      None \<Rightarrow>
                                        map_sum id (\<lambda>n. (hard, n))
                                          (Base64_toInt (Utf8_decode (drop (sz_hs sz) qb64b)))
                                    | Some f \<Rightarrow>
                                        (if length qb64b < f
                                         then Inl (ShortageError (NeedMore (f - length qb64b)))
                                         else map_sum id (\<lambda>n. (hard, n))
                                                (Base64_toInt
                                                   (Utf8_decode (jslice (sz_hs sz) f qb64b))))))))))"

text \<open>
  \<^verbatim>\<open>getSealSourceTriples\<close>. Each round of the loop parses prefix, sequence number and
  digest from the same bytes \<open>triple\<close> and adds their sizes.
\<close>

definition parseTriple :: "hards \<Rightarrow> protocol \<Rightarrow> byte list \<Rightarrow> error + int" where
  "parseTriple H p triple =
     (case fromMatterQB64b H (Bytes triple) p of
        Inl e \<Rightarrow> Inl e
      | Inr (prefix_hard, prefix_size, prefix_raw) \<Rightarrow>
          (case fromMatterQB64b H (Bytes (drop (nat prefix_size) triple)) p of
             Inl e \<Rightarrow> Inl e
           | Inr (seqner_hard, seqner_size, seqner_raw) \<Rightarrow>
               (case fromMatterQB64b H (Bytes (drop (nat (prefix_size + seqner_size)) triple)) p of
                  Inl e \<Rightarrow> Inl e
                | Inr (saider_hard, saider_size, saider_raw) \<Rightarrow>
                    Inr (prefix_size + seqner_size + saider_size))))"

fun triplesLoop :: "hards \<Rightarrow> protocol \<Rightarrow> byte list \<Rightarrow> nat \<Rightarrow> int \<Rightarrow> error + int" where
  "triplesLoop H p triple 0 tripleSize = Inr tripleSize"
| "triplesLoop H p triple (Suc n) tripleSize =
     (case parseTriple H p triple of
        Inl e \<Rightarrow> Inl e
      | Inr s \<Rightarrow> triplesLoop H p triple n (tripleSize + s))"

definition getSealSourceTriples ::
  "hards \<Rightarrow> CesrValue \<Rightarrow> protocol \<Rightarrow> byte list \<Rightarrow> CesrDerivationCode \<Rightarrow> error + CesrValue" where
  "getSealSourceTriples H cesrValue p bytes derivationCode =
     (case getCodeTable p (dc_selector derivationCode) of
        Inl e \<Rightarrow> Inl e
      | Inr table \<Rightarrow>
          (case getTotalLength table derivationCode of
             Inl e \<Rightarrow> Inl e
           | Inr None \<Rightarrow> Inl TypeError
           | Inr (Some fs') \<Rightarrow>
               (let triple = drop (nat fs') bytes
                in case fromCounterQB64b H (Bytes (jsliceTo fs' bytes)) p of
                     Inl e \<Rightarrow> Inl e
                   | Inr (counterHard, count) \<Rightarrow>
                       (case triplesLoop H p triple (nat count) 0 of
                          Inl e \<Rightarrow> Inl e
                        | Inr tripleSize \<Rightarrow>
                            Inr \<lparr>cv_header =
                                   DerivationCode
                                     (derivationCode\<lparr>dc_leadBytes := Some 0,
                                                     dc_size := Some fs',
                                                     dc_count := Some count,
                                                     dc_index := Some (- 1),
                                                     dc_ondex := Some (- 1)\<rparr>),
                                 cv_value = jsliceTo (fs' + tripleSize) bytes\<rparr>))))"

text \<open>
  \<^verbatim>\<open>getAttachedMaterialQuadlets\<close>. A header without a count makes the size \<^verbatim>\<open>NaN\<close>: the
  comparison is false and the slice is empty.
\<close>

definition getAttachedMaterialQuadlets ::
  "byte list \<Rightarrow> CesrDerivationCode \<Rightarrow> int option \<Rightarrow> nat \<Rightarrow> error + CesrValue" where
  "getAttachedMaterialQuadlets bytes derivationCode quadletCount codeLength =
     (case quadletCount of
        None \<Rightarrow> Inr \<lparr>cv_header = DerivationCode derivationCode, cv_value = []\<rparr>
      | Some q \<Rightarrow>
          (let size' = q * 4 + int codeLength
           in if size' > int (length bytes)
              then Inl (UnknownCodeError ''getAttachedMaterialQuadlets'')
              else Inr \<lparr>cv_header = DerivationCode derivationCode,
                        cv_value = jsliceTo size' bytes\<rparr>))"

definition getTextFrame :: "hards \<Rightarrow> protocol \<Rightarrow> byte list \<Rightarrow> error + CesrValue" where
  "getTextFrame H p bytes =
     (case getCesrValue p (Bytes bytes) of
        Inl e \<Rightarrow> Inl e
      | Inr cesrValue \<Rightarrow>
          (case cv_header cesrValue of
             VersionHeader v \<Rightarrow> Inl (UnknownCodeError ''getTextFrame'')
           | DerivationCode d \<Rightarrow>
               (if dc_selector d = js ''-I'' then getSealSourceTriples H cesrValue p bytes d
                else if dc_selector d = js ''-V'' \<or> dc_selector d = js ''-0V''
                then getAttachedMaterialQuadlets bytes d (dc_count d) (length (dc_value d))
                else Inl (UnknownCodeError ''getTextFrame''))))"

text \<open>
  \<^verbatim>\<open>getCesrFrame\<close>: \<^verbatim>\<open>input[0] >> 5\<close> is the tritet; on an empty input \<^verbatim>\<open>input[0]\<close> is
  \<^verbatim>\<open>undefined\<close> and the shift gives 0.
\<close>

definition CtB64 :: nat where
  "CtB64 = 1"

definition ColdDex_JSON :: nat where
  "ColdDex_JSON = 3"

definition tritetOf :: "byte list \<Rightarrow> nat" where
  "tritetOf bytes = (case bytes of [] \<Rightarrow> 0 | b # bs \<Rightarrow> unat (drop_bit 5 b))"

definition getCesrFrame :: "hards \<Rightarrow> protocol \<Rightarrow> input \<Rightarrow> error + CesrValue" where
  "getCesrFrame H p inp =
     (let bytes = toBytes inp;
          tritet = tritetOf bytes
      in if tritet = CtB64 then getTextFrame H p bytes
         else if tritet = ColdDex_JSON then getJsonFrame bytes
         else Inl (UnknownCodeError ''getCesrFrame''))"

section \<open>The parser, older module\<close>

text \<open>The same two functions as the older module has them.\<close>

definition getCesrValue_002 :: "protocol \<Rightarrow> input \<Rightarrow> error + CesrValue" where
  "getCesrValue_002 p inp =
     (let selector = (case inp of Str s \<Rightarrow> jslice 0 8 s
                                | Bytes b \<Rightarrow> Utf8_decode (jslice 0 8 b));
          bytes = toBytes inp;
          selectorSize = getSelectorSize p selector
      in if selectorSize > length selector then Inl (UnknownCodeError ''getCesrValue'')
         else
           (case getCodeTable p (jslice 0 selectorSize selector) of
              Inl e \<Rightarrow> Inl e
            | Inr table \<Rightarrow>
                (if codeSize table > length selector then Inl (UnknownCodeError ''getCesrValue'')
                 else
                   (case mapCodeHeader table (jslice 0 (codeSize table) selector) of
                      Inl e \<Rightarrow> Inl e
                    | Inr code \<Rightarrow>
                        (case getTotalLength table code of
                           Inl e \<Rightarrow> Inl e
                         | Inr tot \<Rightarrow>
                             (if (case tot of None \<Rightarrow> False
                                              | Some t \<Rightarrow> t > int (length bytes))
                              then Inl (UnknownCodeError ''getCesrValue'')
                              else (let val = (case tot of None \<Rightarrow> []
                                                           | Some t \<Rightarrow> jsliceTo t bytes)
                                    in if tot \<noteq> Some (int (length val))
                                       then Inl (UnknownCodeError ''getCesrValue'')
                                       else Inr \<lparr>cv_header = DerivationCode code,
                                                 cv_value = val\<rparr>)))))))"

definition getJsonFrame_002 :: "byte list \<Rightarrow> error + CesrValue" where
  "getJsonFrame_002 bytes =
     (let versionStrHeader = Utf8_decode (jslice 0 24 bytes)
      in case versionStrPattern versionStrHeader of
           None \<Rightarrow> Inl (UnknownCodeError ''getJsonFrame'')
         | Some versionStr \<Rightarrow>
             (let code = \<lparr>vh_value = versionStr, vh_serial = jslice 6 10 versionStr,
                          vh_proto = jslice 0 6 versionStr,
                          vh_digits = jslice 10 16 versionStr\<rparr>
              in if Serials_json \<noteq> vh_serial code
                 then (case vh_size code of
                         Inl e \<Rightarrow> Inl e
                       | Inr size' \<Rightarrow> Inl (UnknownCodeError ''getJsonFrame''))
                 else
                   (case vh_size code of
                      Inl e \<Rightarrow> Inl e
                    | Inr size' \<Rightarrow>
                        (let constructed = (if size' > int (length bytes)
                                            then Some (UnknownCodeError ''getJsonFrame'')
                                            else None)
                         in Inr \<lparr>cv_header = VersionHeader code,
                                  cv_value = jsliceTo size' bytes\<rparr>))))"

section \<open>The stream decoder\<close>

text \<open>
  The linked groups of a frame and the linked frames of the state are stacks: a list
  whose head is the innermost element. The state always has a current frame; the frames
  under it are \<open>nextFrames\<close>. The root frame has no end (\<^verbatim>\<open>undefined\<close>).
\<close>

record 'v Group =
  g_protocol :: "protocol option"
  g_value :: 'v

datatype valueGetter = GetCesrFrame | GetCesrValue

record 'v Frame =
  f_end :: "nat option"
  f_valueGetter :: valueGetter
  f_group :: "'v Group list"
  f_value :: 'v

record 'v DecoderState =
  currentFrame :: "'v Frame"
  nextFrames :: "'v Frame list"
  start :: nat

definition newDecoderState :: "'v \<Rightarrow> 'v DecoderState" where
  "newDecoderState v =
     \<lparr>currentFrame = \<lparr>f_end = None, f_valueGetter = GetCesrFrame, f_group = [], f_value = v\<rparr>,
      nextFrames = [], start = 0\<rparr>"

definition isEmpty :: "'v DecoderState \<Rightarrow> bool" where
  "isEmpty st = (nextFrames st = [])"

definition pushFrame :: "nat \<Rightarrow> 'v \<Rightarrow> 'v DecoderState \<Rightarrow> 'v DecoderState" where
  "pushFrame e v st =
     st\<lparr>currentFrame := \<lparr>f_end = Some e, f_valueGetter = GetCesrValue, f_group = [],
                          f_value = v\<rparr>,
        nextFrames := currentFrame st # nextFrames st\<rparr>"

definition popFrame :: "'v DecoderState \<Rightarrow> error + 'v DecoderState" where
  "popFrame st =
     (case nextFrames st of
        [] \<Rightarrow> Inl PopFrameError
      | f # fs \<Rightarrow> Inr (st\<lparr>currentFrame := f, nextFrames := fs\<rparr>))"

text \<open>\<^verbatim>\<open>pushGroup\<close>: one new group in front of the stack for each round of the loop.\<close>

fun pushGroup_loop :: "nat \<Rightarrow> protocol option \<Rightarrow> 'v \<Rightarrow> 'v Group list \<Rightarrow> 'v Group list" where
  "pushGroup_loop 0 p v gs = gs"
| "pushGroup_loop (Suc n) p v gs = pushGroup_loop n p v (\<lparr>g_protocol = p, g_value = v\<rparr> # gs)"

text \<open>The count is a number or \<^verbatim>\<open>undefined\<close>; the loop runs while \<^verbatim>\<open>i < count\<close>.\<close>

definition rounds :: "int option \<Rightarrow> nat" where
  "rounds c = (case c of None \<Rightarrow> 0 | Some n \<Rightarrow> nat n)"

definition pushGroup :: "int option \<Rightarrow> protocol option \<Rightarrow> 'v \<Rightarrow> 'v DecoderState \<Rightarrow> 'v DecoderState" where
  "pushGroup c p v st =
     st\<lparr>currentFrame :=
          (currentFrame st)\<lparr>f_group := pushGroup_loop (rounds c) p v (f_group (currentFrame st))\<rparr>\<rparr>"

definition popGroup :: "'v DecoderState \<Rightarrow> 'v Group option \<times> 'v DecoderState" where
  "popGroup st =
     (case f_group (currentFrame st) of
        [] \<Rightarrow> (None, st)
      | g # gs \<Rightarrow> (Some g, st\<lparr>currentFrame := (currentFrame st)\<lparr>f_group := gs\<rparr>\<rparr>))"

text \<open>The four mapping methods of \<^verbatim>\<open>CesrDecoder\<close>, which a subclass can override.\<close>

record 'v hooks =
  mapJsonFrame :: "'v Frame \<Rightarrow> 'v Group option \<Rightarrow> CesrValue \<Rightarrow> nat \<times> nat \<Rightarrow> 'v"
  mapCesrFrame :: "'v Frame \<Rightarrow> 'v Group option \<Rightarrow> CesrValue \<Rightarrow> nat \<times> nat \<Rightarrow> 'v"
  mapCesrGroup :: "'v Frame \<Rightarrow> 'v Group option \<Rightarrow> CesrValue \<Rightarrow> nat \<times> nat \<Rightarrow> 'v"
  mapCesrLeaf :: "'v Frame \<Rightarrow> 'v Group option \<Rightarrow> CesrValue \<Rightarrow> nat \<times> nat \<Rightarrow> 'v"

definition mapDefault :: "CesrValue Frame \<Rightarrow> CesrValue Group option \<Rightarrow> CesrValue \<Rightarrow> nat \<times> nat \<Rightarrow> CesrValue" where
  "mapDefault frame grp code offset = code"

definition defaultHooks :: "CesrValue hooks" where
  "defaultHooks = \<lparr>mapJsonFrame = mapDefault, mapCesrFrame = mapDefault,
                   mapCesrGroup = mapDefault, mapCesrLeaf = mapDefault\<rparr>"

text \<open>\<^verbatim>\<open>input.slice(state.start, state.end)\<close>, where the end can be \<^verbatim>\<open>undefined\<close>.\<close>

definition sliceFrame :: "nat \<Rightarrow> nat option \<Rightarrow> byte list \<Rightarrow> byte list" where
  "sliceFrame a e bytes = (case e of None \<Rightarrow> drop a bytes | Some b \<Rightarrow> jslice a b bytes)"

text \<open>\<^verbatim>\<open>nextSlice\<close>: frames are popped while the slice is empty and a frame is left under.\<close>

fun nextSlice_loop ::
  "nat \<Rightarrow> byte list \<Rightarrow> 'v Frame \<Rightarrow> 'v Frame list \<Rightarrow> byte list \<times> 'v Frame \<times> 'v Frame list" where
  "nextSlice_loop a bytes cur [] = (sliceFrame a (f_end cur) bytes, cur, [])"
| "nextSlice_loop a bytes cur (f # fs) =
     (if sliceFrame a (f_end cur) bytes \<noteq> [] then (sliceFrame a (f_end cur) bytes, cur, f # fs)
      else nextSlice_loop a bytes f fs)"

definition nextSlice :: "'v DecoderState \<Rightarrow> byte list \<Rightarrow> byte list \<times> 'v DecoderState" where
  "nextSlice st bytes =
     (case nextSlice_loop (start st) bytes (currentFrame st) (nextFrames st) of
        (sl, cur, rest) \<Rightarrow> (sl, st\<lparr>currentFrame := cur, nextFrames := rest\<rparr>))"

definition callGetter :: "hards \<Rightarrow> valueGetter \<Rightarrow> protocol \<Rightarrow> byte list \<Rightarrow> error + CesrValue" where
  "callGetter H g p sl =
     (case g of GetCesrFrame \<Rightarrow> getCesrFrame H p (Bytes sl)
              | GetCesrValue \<Rightarrow> getCesrValue p (Bytes sl))"

text \<open>\<^verbatim>\<open>group?.protocol ?? this.#protocol\<close>: the protocol of the group, if it has one.\<close>

definition groupProtocol :: "protocol \<Rightarrow> 'v Group option \<Rightarrow> protocol" where
  "groupProtocol this_protocol grp =
     (case grp of
        None \<Rightarrow> this_protocol
      | Some g \<Rightarrow> (case g_protocol g of None \<Rightarrow> this_protocol | Some q \<Rightarrow> q))"

text \<open>
  One round of the loop of \<^verbatim>\<open>values\<close>, from \<^verbatim>\<open>nextSlice\<close> to the update of \<^verbatim>\<open>state.start\<close>
  after the \<^verbatim>\<open>yield\<close>. The generator's variables \<open>serial\<close> and \<open>version\<close> are carried with
  the state. The round ends the generator (\<open>Done\<close>), yields a value, or throws; the
  state is given in each case, as the object the caller holds is updated in place.
\<close>

record 'v generator =
  gen_serial :: jstring
  gen_version :: jstring
  gen_state :: "'v DecoderState"

datatype 'v outcome =
    Done "'v generator"
  | Yield 'v "'v generator"
  | Throw error "'v generator"

definition newGenerator :: "'v DecoderState \<Rightarrow> 'v generator" where
  "newGenerator st = \<lparr>gen_serial = js ''JSON'', gen_version = [], gen_state = st\<rparr>"

definition values_step :: "hards \<Rightarrow> 'v hooks \<Rightarrow> protocol \<Rightarrow> byte list \<Rightarrow> 'v generator \<Rightarrow> 'v outcome" where
  "values_step H hk this_protocol bytes gen =
     (case nextSlice (gen_state gen) bytes of
        (sl, st1) \<Rightarrow>
          (if length sl = 0 then Done (gen\<lparr>gen_state := st1\<rparr>)
           else
             (case popGroup st1 of
                (grp, st2) \<Rightarrow>
                  (let frame = currentFrame st2;
                       p = groupProtocol this_protocol grp
                   in case callGetter H (f_valueGetter frame) p sl of
                        Inl e \<Rightarrow> Throw e (gen\<lparr>gen_state := st2\<rparr>)
                      | Inr frameValue \<Rightarrow>
                          (case cv_header frameValue of
                             VersionHeader v \<Rightarrow>
                               (let gen' = gen\<lparr>gen_serial := vh_serial v,
                                              gen_version := vh_proto v\<rparr>;
                                    len = length (cv_value frameValue)
                                in if vh_serial v \<noteq> [] then
                                     (if vh_serial v = Serials_json then
                                        Yield (mapJsonFrame hk frame grp frameValue
                                                 (start st2, len))
                                              (gen'\<lparr>gen_state := st2\<lparr>start := start st2 + len\<rparr>\<rparr>)
                                      else Throw (UnsupportedSerialization (vh_serial v))
                                             (gen'\<lparr>gen_state := st2\<rparr>))
                                   else Throw UnsupportedHeader (gen'\<lparr>gen_state := st2\<rparr>))
                           | DerivationCode d \<Rightarrow>
                               (let len = length (cv_value frameValue)
                                in if dc_selector d \<noteq> [] then
                                     (let d' = d\<lparr>dc_serial := Some (gen_serial gen),
                                                  dc_version := Some (gen_version gen)\<rparr>;
                                          frameValue' = frameValue\<lparr>cv_header := DerivationCode d'\<rparr>
                                      in if isFrame p d' then
                                           (let len' = length (dc_value d');
                                                result = mapCesrFrame hk frame grp frameValue'
                                                           (start st2, len')
                                            in Yield result
                                                 (gen\<lparr>gen_state :=
                                                        (pushFrame (start st2 + len) result st2)
                                                          \<lparr>start := start st2 + len'\<rparr>\<rparr>))
                                         else if isGroup p d' then
                                           (let result = mapCesrGroup hk frame grp frameValue'
                                                           (start st2, len);
                                                q = (if hasContext p d' then getContext p d'
                                                     else None)
                                            in Yield result
                                                 (gen\<lparr>gen_state :=
                                                        (pushGroup (dc_count d') q result st2)
                                                          \<lparr>start := start st2 + len\<rparr>\<rparr>))
                                         else
                                           Yield (mapCesrLeaf hk frame grp frameValue'
                                                    (start st2, len))
                                                 (gen\<lparr>gen_state := st2\<lparr>start := start st2 + len\<rparr>\<rparr>))
                                   else Throw UnsupportedHeader (gen\<lparr>gen_state := st2\<rparr>)))))))"

text \<open>
  The generator after its first \<open>n\<close> values, if it yields that many: the loop of \<^verbatim>\<open>values\<close>
  run for \<open>n\<close> rounds.
\<close>

fun values_after ::
  "nat \<Rightarrow> hards \<Rightarrow> 'v hooks \<Rightarrow> protocol \<Rightarrow> byte list \<Rightarrow> 'v generator \<Rightarrow> 'v generator option" where
  "values_after 0 H hk this_protocol bytes gen = Some gen"
| "values_after (Suc n) H hk this_protocol bytes gen =
     (case values_step H hk this_protocol bytes gen of
        Yield r gen' \<Rightarrow> values_after n H hk this_protocol bytes gen'
      | Done gen' \<Rightarrow> None
      | Throw e gen' \<Rightarrow> None)"

section \<open>Example parameters\<close>

text \<open>
  Concrete tables for the closed examples below. The hard sizes are those of the
  reference tables: a letter selects a one-character code, the digits \<open>0\<close>, \<open>4\<close>, \<open>5\<close>, \<open>6\<close>
  a two-character code and the other digits a four-character code; counter codes start
  with \<open>-\<close> and have two characters, or three after \<open>-0\<close>.
\<close>

definition exampleMatterHards :: "jstring \<Rightarrow> nat option" where
  "exampleMatterHards k =
     (case k of
        [c] \<Rightarrow>
          (if (65 \<le> c \<and> c \<le> 90) \<or> (97 \<le> c \<and> c \<le> 122) then Some 1
           else if c = 48 \<or> c = 52 \<or> c = 53 \<or> c = 54 then Some 2
           else if 49 \<le> c \<and> c \<le> 57 then Some 4
           else None)
      | _ \<Rightarrow> None)"

definition exampleCounterHards :: "jstring \<Rightarrow> nat option" where
  "exampleCounterHards k =
     (case k of
        [a, b] \<Rightarrow>
          (if a = 45 \<and> ((65 \<le> b \<and> b \<le> 90) \<or> (97 \<le> b \<and> b \<le> 122)) then Some 2
           else if a = 45 \<and> b = 48 then Some 3
           else None)
      | _ \<Rightarrow> None)"

definition exampleHards :: hards where
  "exampleHards = \<lparr>MatterHards = exampleMatterHards, CounterHards = exampleCounterHards,
                    CountCodeStart = 45, OpCodeStart = 95\<rparr>"

definition matterSpec :: "nat \<Rightarrow> nat \<Rightarrow> nat option \<Rightarrow> nat \<Rightarrow> codeSpec" where
  "matterSpec h s f l =
     \<lparr>table_type = [if f = None then js ''VariableSize'' else js ''FixedSize''],
      spec_default_size = \<lparr>d_hs = h, d_ss = Some s, d_os = None, d_ls = Some l\<rparr>,
      spec_sizes = Some \<lparr>sz_hs = h, sz_ss = s, sz_fs = f, sz_ls = l\<rparr>,
      spec_name = js ''Matter'', spec_counter = None\<rparr>"

definition counterSpec :: "jstring option \<Rightarrow> codeSpec" where
  "counterSpec m =
     \<lparr>table_type = [js ''Counter''],
      spec_default_size = \<lparr>d_hs = 2, d_ss = Some 2, d_os = None, d_ls = None\<rparr>,
      spec_sizes = Some \<lparr>sz_hs = 2, sz_ss = 2, sz_fs = Some 4, sz_ls = 0\<rparr>,
      spec_name = js ''Counter'', spec_counter = Some \<lparr>c_count = m, c_context = None\<rparr>\<rparr>"

text \<open>
  A context with a 32-byte digest code \<open>E\<close>, a 16-byte code \<open>0A\<close>, a fixed code \<open>2___\<close>
  with one lead byte, a variable-size code \<open>4A\<close>, a counter \<open>-A\<close> that counts its
  elements once and a counter \<open>-V\<close> of quadlets. The lookup is given up to eight
  characters and finds the entry by the hard code they start with.
\<close>

definition exampleContext :: "jstring \<Rightarrow> codeSpec option" where
  "exampleContext sel =
     (if take 1 sel = js ''E'' then Some (matterSpec 1 0 (Some 44) 0)
      else if take 2 sel = js ''0A'' then Some (matterSpec 2 0 (Some 24) 0)
      else if take 4 sel = js ''2___'' then Some (matterSpec 4 0 (Some 8) 1)
      else if take 2 sel = js ''4A'' then Some (matterSpec 2 2 None 0)
      else if take 2 sel = js ''-A'' then Some (counterSpec (Some (js ''*1'')))
      else if take 2 sel = js ''-V'' then Some (counterSpec None)
      else None)"

definition exampleProtocol :: protocol where
  "exampleProtocol = CesrSchemaProtocol (\<lambda>names. exampleContext) exampleContext"

text \<open>
  A second table, with a primitive short enough to be written out: the code \<open>E\<close> of one
  character, so that one pad character stands for it, and a full size of 4.
\<close>

definition examplePadContext :: "jstring \<Rightarrow> codeSpec option" where
  "examplePadContext sel =
     (if take 1 sel = js ''E'' then Some (matterSpec 1 0 (Some 4) 0) else None)"

definition examplePadProtocol :: protocol where
  "examplePadProtocol = CesrSchemaProtocol (\<lambda>names. examplePadContext) examplePadContext"

definition exampleRoot :: CesrValue where
  "exampleRoot = \<lparr>cv_header = VersionHeader \<lparr>vh_value = [], vh_serial = [], vh_proto = [],
                                               vh_digits = []\<rparr>,
                   cv_value = []\<rparr>"

text \<open>The 24 bytes \<^verbatim>\<open>{"v":"KERI10JSON0000fc_"\<close>.\<close>

definition scenarioA_prefix :: "byte list" where
  "scenarioA_prefix = Utf8_encode (js ''{\"v\":\"KERI10JSON0000fc_\"'')"

definition scenarioA_header :: CesrVersionHeader where
  "scenarioA_header = \<lparr>vh_value = js ''KERI10JSON0000fc'', vh_serial = js ''JSON'',
                        vh_proto = js ''KERI10'', vh_digits = js ''0000fc''\<rparr>"

text \<open>
  Two streams for the stream decoder. Both open with a \<open>-V\<close> frame over the rest. In the
  first the frame holds a group header \<open>-AAD\<close> (count 3) and three values \<open>2___AAAB\<close>; in
  the second it holds two group headers \<open>-AAD\<close> and three values.
\<close>

definition scenarioC_stream :: "byte list" where
  "scenarioC_stream = Utf8_encode (js ''-VAH-AAD2___AAAB2___AAAB2___AAAB'')"

definition nestedGroups_stream :: "byte list" where
  "nestedGroups_stream = Utf8_encode (js ''-VAI-AAD-AAD2___AAAB2___AAAB2___AAAB'')"

text \<open>The headers that \<^verbatim>\<open>mapCodeHeader\<close> gives for the codes of the two streams.\<close>

definition exampleFrameHeader :: "nat \<Rightarrow> int \<Rightarrow> CesrDerivationCode" where
  "exampleFrameHeader digit n =
     \<lparr>dc_table = counterSpec None, dc_value = [45, 86, 65, digit], dc_selector = [45, 86],
      dc_type = [45, 86], dc_digits = Some [65, digit], dc_typeName = js ''Counter'',
      dc_leadBytes = None, dc_size = None, dc_count = Some n, dc_quadlets = Some n,
      dc_version = None, dc_index = None, dc_ondex = None, dc_serial = None\<rparr>"

definition exampleGroupHeader :: CesrDerivationCode where
  "exampleGroupHeader =
     \<lparr>dc_table = counterSpec (Some (js ''*1'')), dc_value = [45, 65, 65, 68],
      dc_selector = [45, 65], dc_type = [45, 65], dc_digits = Some [65, 68],
      dc_typeName = js ''Counter'', dc_leadBytes = None, dc_size = None, dc_count = Some 3,
      dc_quadlets = None, dc_version = None, dc_index = None, dc_ondex = None,
      dc_serial = None\<rparr>"

definition exampleLeafHeader :: CesrDerivationCode where
  "exampleLeafHeader =
     \<lparr>dc_table = matterSpec 4 0 (Some 8) 1, dc_value = [50, 95, 95, 95],
      dc_selector = [50, 95, 95, 95], dc_type = [50, 95, 95, 95], dc_digits = Some [],
      dc_typeName = js ''Matter'', dc_leadBytes = Some 1, dc_size = None, dc_count = None,
      dc_quadlets = None, dc_version = None, dc_index = None, dc_ondex = None,
      dc_serial = None\<rparr>"

section \<open>Auxiliary notions for the proofs\<close>

text \<open>The text \<^verbatim>\<open>btoa\<close> writes before the padding, and the number of padding signs.\<close>

definition stdText :: "nat list \<Rightarrow> jstring" where
  "stdText s = map (\<lambda>v. b64std ! v) (sextets s)"

definition padCount :: "nat \<Rightarrow> nat" where
  "padCount n = (3 - n mod 3) mod 3"

text \<open>The integer that a byte array writes in base 256, without rounding.\<close>

definition readIntExact :: "byte list \<Rightarrow> nat" where
  "readIntExact array = foldl (\<lambda>v b. v * 256 + unat b) 0 array"

text \<open>
  What a round of the decoder reads of the state: the cursor, the end and the getter of
  the active frame, and the protocols of its pending groups, innermost first.
\<close>

definition cursorView ::
  "'v DecoderState \<Rightarrow> nat \<times> nat option \<times> valueGetter \<times> protocol option list" where
  "cursorView st =
     (start st, f_end (currentFrame st), f_valueGetter (currentFrame st),
      map g_protocol (f_group (currentFrame st)))"

text \<open>The protocol a round uses, read from the protocols of the pending groups.\<close>

definition viewProtocol :: "protocol \<Rightarrow> protocol option list \<Rightarrow> protocol" where
  "viewProtocol this_protocol gps =
     (case gps of [] \<Rightarrow> this_protocol | None # rest \<Rightarrow> this_protocol | Some q # rest \<Rightarrow> q)"

definition groupDepth :: "'v generator option \<Rightarrow> nat option" where
  "groupDepth g = map_option (\<lambda>gen. length (f_group (currentFrame (gen_state gen)))) g"

section \<open>Properties\<close>

declare Utf8_encode.simps [simp del]
declare bitLength.simps [simp del]

subsection \<open>Text and bytes\<close>

lemma ascii_not_surrogate: "c < 128 \<Longrightarrow> \<not> highSurrogate c \<and> \<not> lowSurrogate c"
  by (simp add: highSurrogate_def lowSurrogate_def)

lemma utf8_bytes_ascii: "c < 128 \<Longrightarrow> utf8_bytes c = [of_nat c]"
  by (simp add: utf8_bytes_def)

lemma Utf8_encode_ascii:
  "\<forall>c\<in>set s. c < 128 \<Longrightarrow> Utf8_encode s = map of_nat s"
proof (induction s rule: Utf8_encode.induct)
  case 1
  show ?case by (simp add: Utf8_encode.simps)
next
  case (2 u)
  then show ?case by (simp add: Utf8_encode.simps ascii_not_surrogate utf8_bytes_ascii)
next
  case (3 u v rest)
  have u: "u < 128" and r: "\<forall>c\<in>set (v # rest). c < 128"
    using "3.prems" by simp_all
  have ns: "\<not> highSurrogate u" "\<not> lowSurrogate u"
    using ascii_not_surrogate [OF u] by simp_all
  have "Utf8_encode (v # rest) = map of_nat (v # rest)"
    using "3.IH"(3) ns r by simp
  then show ?case
    using ns u by (simp add: Utf8_encode.simps utf8_bytes_ascii)
qed

lemma utf8_lead_ascii: "x < 128 \<Longrightarrow> utf8_lead x = ([x], utf8_initial)"
  by (simp add: utf8_lead_def)

lemma utf8_initial_needed: "bytesNeeded utf8_initial = 0"
  by (simp add: utf8_initial_def)

lemma utf8_run_ascii:
  "\<forall>b\<in>set bs. unat b < 128 \<Longrightarrow> utf8_run utf8_initial bs = map unat bs"
  by (induction bs) (simp_all add: utf8_lead_ascii utf8_initial_needed Let_def)

lemma Utf8_decode_ascii:
  assumes "\<forall>b\<in>set bs. unat b < 128"
  shows "Utf8_decode bs = map unat bs"
proof -
  have "take 3 bs \<noteq> [239, 187, 191]"
  proof
    assume h: "take 3 bs = [239, 187, 191]"
    then have "(239 :: byte) \<in> set (take 3 bs)" by simp
    then have "(239 :: byte) \<in> set bs" by (rule in_set_takeD)
    with assms have "unat (239 :: byte) < 128" by blast
    then show False by simp
  qed
  then show ?thesis
    using assms by (simp add: Utf8_decode_def utf8_run_ascii)
qed

subsection \<open>Hexadecimal text\<close>

lemma bitLength_le: "bitLength n \<le> k \<longleftrightarrow> n < 2 ^ k"
proof (induction k arbitrary: n)
  case 0
  show ?case by (cases "n = 0") (simp_all add: bitLength.simps)
next
  case (Suc k)
  show ?case
  proof (cases "n = 0")
    case True
    then show ?thesis by (simp add: bitLength.simps)
  next
    case False
    have "bitLength n \<le> Suc k \<longleftrightarrow> bitLength (n div 2) \<le> k"
      using False by (simp add: bitLength.simps [of n])
    also have "\<dots> \<longleftrightarrow> n div 2 < 2 ^ k"
      by (rule Suc.IH)
    also have "\<dots> \<longleftrightarrow> n < 2 ^ Suc k"
      by (simp add: less_mult_imp_div_less div_less_iff_less_mult mult.commute)
    finally show ?thesis .
  qed
qed

lemma toDouble_small: "n < 2 ^ 53 \<Longrightarrow> toDouble n = n"
  by (simp add: toDouble_def bitLength_le)

lemma toUint8_small: "\<bar>i\<bar> < 2 ^ 53 \<Longrightarrow> toUint8 (Some i) = of_int i"
proof -
  assume a: "\<bar>i\<bar> < 2 ^ 53"
  then have "nat \<bar>i\<bar> < 2 ^ 53"
    by (simp add: nat_less_iff)
  then have "toDouble (nat \<bar>i\<bar>) = nat \<bar>i\<bar>"
    by (rule toDouble_small)
  then show ?thesis
    by (simp add: toUint8_def mult_sgn_abs)
qed

lemma toUint8_None: "toUint8 None = 0"
  by (simp add: toUint8_def)

lemmas parseInt16_eval = parseInt16_def hexDigitValue_def strWhiteSpace_def js_def

lemma Hex_decode_0f: "Hex_decode (js ''0f'') = Inr [15]"
proof -
  have s: "js ''0f'' = [48, 102]"
    by (simp add: js_def)
  have p: "parseInt16 [48, 102] = Some 15"
    by (simp add: parseInt16_eval)
  have u: "toUint8 (Some 15) = 15"
    by (simp add: toUint8_small)
  show ?thesis
    unfolding s by (simp add: Hex_decode_def substring_def p u)
qed

lemma Hex_decode_abc: "Hex_decode (js ''abc'') = Inl InvalidHexString"
  by (simp add: Hex_decode_def js_def)

lemma Hex_decode_0g: "Hex_decode (js ''0g'') = Inr [0]"
proof -
  have s: "js ''0g'' = [48, 103]"
    by (simp add: js_def)
  have p: "parseInt16 [48, 103] = Some 0"
    by (simp add: parseInt16_eval)
  have u: "toUint8 (Some 0) = 0"
    by (simp add: toUint8_small)
  show ?thesis
    unfolding s by (simp add: Hex_decode_def substring_def p u)
qed

lemma Hex_decode_0f10: "Hex_decode (js ''0f10'') = Inr [15, 0]"
proof -
  have s: "js ''0f10'' = [48, 102, 49, 48]"
    by (simp add: js_def)
  have s0: "substring 0 2 [48, 102, 49, 48 :: nat] = [48, 102]"
    by (simp add: substring_def)
  have s1: "substring 2 2 [48, 102, 49, 48 :: nat] = []"
    by (simp add: substring_def)
  have p: "parseInt16 [48, 102] = Some 15"
    by (simp add: parseInt16_eval)
  have q: "parseInt16 [] = None"
    by (simp add: parseInt16_eval)
  have u: "toUint8 (Some 15) = 15"
    by (simp add: toUint8_small)
  have r: "[0..<length [48, 102, 49, 48 :: nat] div 2] = [0, 1]"
    by (simp add: upt_rec)
  show ?thesis
    unfolding s Hex_decode_def r by (simp add: s0 s1 p q u toUint8_None)
qed

lemma Hex_encode_length: "length (Hex_encode bs) = 2 * length bs"
  by (induction bs) (simp_all add: Hex_encode_def)

lemma Hex_encode_0f10: "Hex_encode [15, 16] = js ''0f10''"
  by (simp add: Hex_encode_def hexDigits_def js_def)

text \<open>
  Claim C7. \<^verbatim>\<open>Hex.encode\<close> writes two lowercase digits for each byte, and \<^verbatim>\<open>Hex.decode\<close>
  of \<open>0f\<close> is the byte 15 and of the odd-length \<open>abc\<close> a failure. The rest of the claim
  does not hold of the source: \<open>0g\<close> decodes to the byte 0 instead of failing, since
  \<^verbatim>\<open>parseInt\<close> stops at the first character that is not a digit, and the second pair of
  \<open>0f10\<close> decodes to 0 instead of 16, since the text read at position 2 is
  \<^verbatim>\<open>substring(2, 2)\<close>, the empty string.
\<close>

theorem Hex_decode_source_behaviour:
  "Hex_decode (js ''0f'') = Inr [15]
   \<and> Hex_decode (js ''abc'') = Inl InvalidHexString
   \<and> Hex_decode (js ''0g'') = Inr [0]
   \<and> Hex_decode (js ''0f10'') = Inr [15, 0]
   \<and> Hex_encode [15, 16] = js ''0f10''"
  by (simp only: Hex_decode_0f Hex_decode_abc Hex_decode_0g Hex_decode_0f10 Hex_encode_0f10
      simp_thms)

subsection \<open>The two parser modules\<close>

text \<open>
  Claim C10. The older and the newer module agree: \<^verbatim>\<open>getCesrValue\<close> returns the same
  header and the same bytes, or fails with the same error, for every protocol and every
  string or byte array, and so does \<^verbatim>\<open>getJsonFrame\<close> for every byte array.
\<close>

theorem parser_modules_agree:
  "getCesrValue_002 p inp = getCesrValue p inp \<and> getJsonFrame_002 bytes = getJsonFrame bytes"
proof
  show "getCesrValue_002 p inp = getCesrValue p inp"
    unfolding getCesrValue_002_def getCesrValue_def
    by (auto simp: Let_def split: sum.splits option.splits)
  show "getJsonFrame_002 bytes = getJsonFrame bytes"
    unfolding getJsonFrame_002_def getJsonFrame_def ..
qed


subsection \<open>Cold start\<close>

lemma tritetOf_less: "tritetOf bytes < 8"
proof (cases bytes)
  case Nil
  then show ?thesis by (simp add: tritetOf_def)
next
  case (Cons b bs)
  have "unat b < 256"
    using unsigned_less [of b, where ?'a = nat] by simp
  then have "unat b div 32 < 8"
    by simp
  then have "unat (drop_bit 5 b) < 8"
    by (simp add: drop_bit_eq_div unat_div)
  then show ?thesis
    using Cons by (simp add: tritetOf_def)
qed

lemma getCesrFrame_other_tritet:
  assumes "tritetOf (toBytes inp) \<in> {0, 2, 4, 5, 6, 7}"
  shows "getCesrFrame H p inp = Inl (UnknownCodeError ''getCesrFrame'')"
  using assms by (auto simp: getCesrFrame_def CtB64_def ColdDex_JSON_def)

lemma nextSlice_root:
  "bytes \<noteq> [] \<Longrightarrow> nextSlice (newDecoderState v) bytes = (bytes, newDecoderState v)"
  by (simp add: nextSlice_def newDecoderState_def sliceFrame_def)

lemma popGroup_root: "popGroup (newDecoderState v) = (None, newDecoderState v)"
  by (simp add: popGroup_def newDecoderState_def)

lemma root_getter: "f_valueGetter (currentFrame (newDecoderState v)) = GetCesrFrame"
  by (simp add: newDecoderState_def)

lemma root_start: "start (newDecoderState v) = 0"
  by (simp add: newDecoderState_def)

lemma values_step_root_throw:
  assumes "bytes \<noteq> []" and "getCesrFrame H p (Bytes bytes) = Inl e"
  shows "values_step H hk p bytes (newGenerator (newDecoderState v))
           = Throw e (newGenerator (newDecoderState v))"
  using assms
  by (simp add: values_step_def nextSlice_root popGroup_root root_getter callGetter_def
      newGenerator_def groupProtocol_def)

text \<open>
  Claim C6. When the tritet of the first byte is 0, 2, 4, 5, 6 or 7 (it is 0 as well for an
  empty input), \<^verbatim>\<open>getCesrFrame\<close> fails with the \<^verbatim>\<open>UnknownCodeError\<close> of the cold start,
  which is the failure the specification calls \<open>UnsupportedColdStart\<close>; the decoder
  started on such an input throws that error and its state, the read cursor included, is
  what it was.
\<close>

theorem getCesrFrame_unsupported_cold_start:
  assumes "tritetOf (toBytes inp) \<in> {0, 2, 4, 5, 6, 7}"
  shows "getCesrFrame H p inp = Inl (UnknownCodeError ''getCesrFrame'')
     \<and> (toBytes inp \<noteq> [] \<longrightarrow>
          values_step H hk p (toBytes inp) (newGenerator (newDecoderState v))
            = Throw (UnknownCodeError ''getCesrFrame'') (newGenerator (newDecoderState v)))"
proof (intro conjI impI)
  show "getCesrFrame H p inp = Inl (UnknownCodeError ''getCesrFrame'')"
    using assms by (rule getCesrFrame_other_tritet)
next
  assume ne: "toBytes inp \<noteq> []"
  have "tritetOf (toBytes (Bytes (toBytes inp))) \<in> {0, 2, 4, 5, 6, 7}"
    using assms by (simp add: toBytes_def)
  then have "getCesrFrame H p (Bytes (toBytes inp)) = Inl (UnknownCodeError ''getCesrFrame'')"
    by (rule getCesrFrame_other_tritet)
  with ne show "values_step H hk p (toBytes inp) (newGenerator (newDecoderState v))
            = Throw (UnknownCodeError ''getCesrFrame'') (newGenerator (newDecoderState v))"
    by (rule values_step_root_throw)
qed

theorem getCesrFrame_unsupported_cold_start_witness:
  "tritetOf (toBytes (Bytes [128])) \<in> {0, 2, 4, 5, 6, 7}
   \<and> getCesrFrame exampleHards exampleProtocol (Bytes [128]) = Inl (UnknownCodeError ''getCesrFrame'')
   \<and> values_step exampleHards defaultHooks exampleProtocol [128] (newGenerator (newDecoderState exampleRoot))
            = Throw (UnknownCodeError ''getCesrFrame'') (newGenerator (newDecoderState exampleRoot))"
proof -
  have t: "tritetOf (toBytes (Bytes [128])) \<in> {0, 2, 4, 5, 6, 7}"
    by (simp add: tritetOf_def toBytes_def drop_bit_eq_div)
  have b: "toBytes (Bytes [128]) = [128]" by (simp add: toBytes_def)
  show ?thesis
    using t getCesrFrame_unsupported_cold_start [OF t, of exampleHards exampleProtocol defaultHooks exampleRoot]
    by (simp add: b)
qed

subsection \<open>Scenario A\<close>

lemma scenarioA_prefix_bytes:
  "scenarioA_prefix = [123, 34, 118, 34, 58, 34, 75, 69, 82, 73, 49, 48, 74, 83, 79, 78, 48, 48,
                       48, 48, 102, 99, 95, 34]"
proof -
  have "Utf8_encode (js ''{\"v\":\"KERI10JSON0000fc_\"'')
          = map of_nat (js ''{\"v\":\"KERI10JSON0000fc_\"'')"
    by (rule Utf8_encode_ascii) (simp add: js_def)
  then show ?thesis
    by (simp add: scenarioA_prefix_def js_def)
qed

lemma scenarioA_length: "length scenarioA_prefix = 24"
  by (simp add: scenarioA_prefix_bytes)

lemma scenarioA_text:
  "Utf8_decode scenarioA_prefix = [123, 34, 118, 34, 58, 34, 75, 69, 82, 73, 49, 48, 74, 83, 79,
                                  78, 48, 48, 48, 48, 102, 99, 95, 34]"
proof -
  have "Utf8_decode scenarioA_prefix = map unat scenarioA_prefix"
    by (rule Utf8_decode_ascii) (simp add: scenarioA_prefix_bytes)
  then show ?thesis
    by (simp add: scenarioA_prefix_bytes)
qed

lemma scenarioA_match:
  "versionStrPattern [123, 34, 118, 34, 58, 34, 75, 69, 82, 73, 49, 48, 74, 83, 79, 78, 48, 48,
                      48, 48, 102, 99, 95, 34]
    = Some (js ''KERI10JSON0000fc'')"
  by (simp add: versionStrPattern_def js_def jslice_def wordChar_def)

lemma scenarioA_size: "Hex_toInt (js ''0000fc'') = Inr 252"
  by (simp add: Hex_toInt_def js_def toUpperCase_def Hex_valueOf_def HEX_def)

lemma getJsonFrame_scenarioA:
  assumes "jslice 0 24 bytes = scenarioA_prefix"
  shows "getJsonFrame bytes
           = Inr \<lparr>cv_header = VersionHeader scenarioA_header, cv_value = take 252 bytes\<rparr>"
proof -
  have v: "versionStrPattern (Utf8_decode (jslice 0 24 bytes)) = Some (js ''KERI10JSON0000fc'')"
    by (simp add: assms scenarioA_text scenarioA_match)
  have a: "jslice 6 10 (js ''KERI10JSON0000fc'') = js ''JSON''"
    by (simp add: js_def jslice_def)
  have b: "jslice 0 6 (js ''KERI10JSON0000fc'') = js ''KERI10''"
    by (simp add: js_def jslice_def)
  have c: "jslice 10 16 (js ''KERI10JSON0000fc'') = js ''0000fc''"
    by (simp add: js_def jslice_def)
  show ?thesis
    unfolding getJsonFrame_def v Let_def
    by (simp add: a b c vh_size_def scenarioA_size Serials_json_def jsliceTo_def
        scenarioA_header_def)
qed

lemma scenarioA_tritet:
  assumes "jslice 0 24 bytes = scenarioA_prefix"
  shows "tritetOf bytes = 3"
proof -
  have "take 1 (jslice 0 24 bytes) = [123]"
    by (simp add: assms scenarioA_prefix_bytes)
  then have "take 1 bytes = [123]"
    by (simp add: jslice_def)
  then obtain rest where "bytes = 123 # rest"
    by (cases bytes) simp_all
  then show ?thesis
    by (simp add: tritetOf_def drop_bit_eq_div)
qed

lemma values_step_scenarioA:
  assumes "jslice 0 24 bytes = scenarioA_prefix"
  shows "values_step H defaultHooks p bytes (newGenerator (newDecoderState v))
           = Yield \<lparr>cv_header = VersionHeader scenarioA_header, cv_value = take 252 bytes\<rparr>
               \<lparr>gen_serial = js ''JSON'', gen_version = js ''KERI10'',
                gen_state = (newDecoderState v)\<lparr>start := length (take 252 bytes)\<rparr>\<rparr>"
proof -
  have "length (jslice 0 24 bytes) = 24"
    using assms scenarioA_length by simp
  then have ne: "bytes \<noteq> []"
    by (auto simp: jslice_def)
  have f: "getCesrFrame H p (Bytes bytes)
             = Inr \<lparr>cv_header = VersionHeader scenarioA_header, cv_value = take 252 bytes\<rparr>"
    using getJsonFrame_scenarioA [OF assms] scenarioA_tritet [OF assms]
    by (simp add: getCesrFrame_def toBytes_def CtB64_def ColdDex_JSON_def)
  have s: "vh_serial scenarioA_header = js ''JSON''" "vh_proto scenarioA_header = js ''KERI10''"
    by (simp_all add: scenarioA_header_def)
  have j: "js ''JSON'' \<noteq> []"
    by (simp add: js_def)
  show ?thesis
    using ne f
    by (simp add: values_step_def nextSlice_root popGroup_root root_getter callGetter_def
        newGenerator_def s j Serials_json_def defaultHooks_def mapDefault_def root_start
        groupProtocol_def)
qed


text \<open>
  Claim C5. The input is the 24 bytes of the version string alone; the header declares
  252 bytes. \<^verbatim>\<open>getJsonFrame\<close> returns a value holding the 24 bytes: the error for a size
  beyond the input is constructed and not thrown.
\<close>

theorem getJsonFrame_declared_size_beyond_input:
  "getJsonFrame scenarioA_prefix
     = Inr \<lparr>cv_header = VersionHeader scenarioA_header, cv_value = scenarioA_prefix\<rparr>
   \<and> vh_size scenarioA_header = Inr 252
   \<and> length scenarioA_prefix = 24"
proof -
  have "jslice 0 24 scenarioA_prefix = scenarioA_prefix"
    by (simp add: jslice_def scenarioA_length)
  then have "getJsonFrame scenarioA_prefix
     = Inr \<lparr>cv_header = VersionHeader scenarioA_header, cv_value = take 252 scenarioA_prefix\<rparr>"
    by (rule getJsonFrame_scenarioA)
  moreover have "vh_size scenarioA_header = Inr 252"
    by (simp add: vh_size_def scenarioA_header_def scenarioA_size)
  ultimately show ?thesis
    by (simp add: scenarioA_length)
qed

text \<open>
  Claim C2. Scenario A is a stream that holds the 252 bytes its header declares. For every
  input of at least 252 bytes that begins with \<^verbatim>\<open>{"v":"KERI10JSON0000fc_"\<close> (so that the
  tritet of its first byte is 3, the bits 011), the first value of the decoder with the
  default mapping is the version header with protocol \<open>KERI10\<close>, serialization kind \<open>JSON\<close>
  and digits \<open>0000fc\<close> over the first 252 bytes, and the cursor moves to 252.
\<close>

theorem scenarioA_first_value:
  assumes "take 24 bytes = scenarioA_prefix" and "252 \<le> length bytes"
  shows "tritetOf bytes = 3
     \<and> values_step H defaultHooks p bytes (newGenerator (newDecoderState v))
         = Yield \<lparr>cv_header = VersionHeader scenarioA_header, cv_value = take 252 bytes\<rparr>
             \<lparr>gen_serial = js ''JSON'', gen_version = js ''KERI10'',
              gen_state = (newDecoderState v)\<lparr>start := 252\<rparr>\<rparr>
     \<and> length (take 252 bytes) = 252
     \<and> vh_proto scenarioA_header = js ''KERI10''
     \<and> vh_serial scenarioA_header = js ''JSON''"
proof -
  have p: "jslice 0 24 bytes = scenarioA_prefix"
    using assms(1) by (simp add: jslice_def)
  have l: "length (take 252 bytes) = 252"
    using assms(2) by simp
  show ?thesis
    using values_step_scenarioA [OF p, of H p v] scenarioA_tritet [OF p] l
    by (simp add: scenarioA_header_def)
qed

theorem scenarioA_first_value_witness:
  "take 24 (scenarioA_prefix @ replicate 228 32) = scenarioA_prefix
   \<and> 252 \<le> length (scenarioA_prefix @ replicate 228 32)
   \<and> values_step exampleHards defaultHooks exampleProtocol (scenarioA_prefix @ replicate 228 32)
         (newGenerator (newDecoderState exampleRoot))
       = Yield \<lparr>cv_header = VersionHeader scenarioA_header,
                 cv_value = scenarioA_prefix @ replicate 228 32\<rparr>
           \<lparr>gen_serial = js ''JSON'', gen_version = js ''KERI10'',
            gen_state = (newDecoderState exampleRoot)\<lparr>start := 252\<rparr>\<rparr>"
proof -
  have a: "take 24 (scenarioA_prefix @ replicate 228 32) = scenarioA_prefix"
    by (simp add: scenarioA_length)
  have b: "252 \<le> length (scenarioA_prefix @ replicate 228 (32 :: byte))"
    by (simp add: scenarioA_length)
  have c: "take 252 (scenarioA_prefix @ replicate 228 (32 :: byte))
             = scenarioA_prefix @ replicate 228 32"
    by (simp add: scenarioA_length)
  show ?thesis
    using a b scenarioA_first_value [OF a b, of exampleHards exampleProtocol exampleRoot]
    by (simp add: c)
qed

subsection \<open>Base64\<close>

lemma b64std_ranges: "b64std = [65..<91] @ [97..<123] @ [48..<58] @ [43, 47]"
  by (simp add: b64std_def js_def)

lemma BASE64_ranges: "BASE64 = [65..<91] @ [97..<123] @ [48..<58] @ [45, 95]"
  by (simp add: BASE64_def js_def)

lemma b64std_length: "length b64std = 64"
  unfolding b64std_ranges by (simp del: upt_rec_numeral)

lemma b64std_distinct: "distinct b64std"
  unfolding b64std_ranges by (auto simp del: upt_rec_numeral)

lemma b64std_set:
  "c \<in> set b64std \<longleftrightarrow> (65 \<le> c \<and> c \<le> 90) \<or> (97 \<le> c \<and> c \<le> 122) \<or> (48 \<le> c \<and> c \<le> 57) \<or> c = 43 \<or> c = 47"
  unfolding b64std_ranges by (auto simp del: upt_rec_numeral)

lemma indexOf_None: "indexOf xs c = None \<longleftrightarrow> c \<notin> set xs"
  by (induction xs) auto

lemma indexOf_nth: "distinct xs \<Longrightarrow> i < length xs \<Longrightarrow> indexOf xs (xs ! i) = Some i"
proof (induction xs arbitrary: i)
  case Nil
  then show ?case by simp
next
  case (Cons x xs)
  show ?case
  proof (cases i)
    case 0
    then show ?thesis by simp
  next
    case (Suc j)
    then have "xs ! j \<in> set xs" using Cons.prems by simp
    then have "x \<noteq> xs ! j" using Cons.prems by auto
    then show ?thesis using Suc Cons by simp
  qed
qed

lemma octets_sextets: "\<forall>x\<in>set s. x < 256 \<Longrightarrow> octets (sextets s) = s"
proof (induction s rule: sextets.induct)
  case (1 a b c rest)
  have a: "a < 256" and b: "b < 256" and c: "c < 256" using "1.prems" by simp_all
  have "a div 4 * 4 + (a mod 4 * 16 + b div 16) div 16 = a" using b by simp
  moreover have "(a mod 4 * 16 + b div 16) mod 16 * 16 + (b mod 16 * 4 + c div 64) div 4 = b"
    using b c by (simp add: mod_mult2_eq) 
  moreover have "(b mod 16 * 4 + c div 64) mod 4 * 64 + c mod 64 = c"
    using c by simp
  ultimately show ?case using 1 by simp
next
  case (2 a b)
  have b: "b < 256" using "2.prems" by simp
  have "a div 4 * 4 + (a mod 4 * 16 + b div 16) div 16 = a" using b by simp
  moreover have "(a mod 4 * 16 + b div 16) mod 16 * 16 + (b mod 16 * 4) div 4 = b"
    using b by simp
  ultimately show ?case by simp
next
  case (3 a)
  then show ?case by simp
next
  case 4
  then show ?case by simp
qed


lemma sextets_lt64: "\<forall>x\<in>set s. x < 256 \<Longrightarrow> \<forall>v\<in>set (sextets s). v < 64"
proof (induction s rule: sextets.induct)
  case (1 a b c rest)
  have a: "a < 256" and b: "b < 256" and c: "c < 256" using "1.prems" by simp_all
  have "a div 4 < 64" using a by simp
  moreover have "a mod 4 * 16 + b div 16 < 64"
  proof -
    have "a mod 4 \<le> 3" by simp
    moreover have "b div 16 \<le> 15" using b by simp
    ultimately show ?thesis by linarith
  qed
  moreover have "b mod 16 * 4 + c div 64 < 64"
  proof -
    have "b mod 16 \<le> 15" by simp
    moreover have "c div 64 \<le> 3" using c by simp
    ultimately show ?thesis by linarith
  qed
  ultimately show ?case using 1 by simp
next
  case (2 a b)
  have a: "a < 256" and b: "b < 256" using "2.prems" by simp_all
  have "a div 4 < 64" using a by simp
  moreover have "a mod 4 * 16 + b div 16 < 64"
  proof -
    have "a mod 4 \<le> 3" by simp
    moreover have "b div 16 \<le> 15" using b by simp
    ultimately show ?thesis by linarith
  qed
  moreover have "b mod 16 * 4 < 64"
  proof -
    have "b mod 16 \<le> 15" by simp
    then show ?thesis by linarith
  qed
  ultimately show ?case by simp
next
  case (3 a)
  have a: "a < 256" using "3.prems" by simp
  have "a div 4 < 64" using a by simp
  moreover have "a mod 4 * 16 < 64"
  proof -
    have "a mod 4 \<le> 3" by simp
    then show ?thesis by linarith
  qed
  ultimately show ?case by simp
next
  case 4
  show ?case by simp
qed

lemma sextets_length: "length (sextets s) = (4 * length s + 2) div 3"
  by (induction s rule: sextets.induct) simp_all


lemma stdText_in_alphabet:
  assumes "\<forall>x\<in>set s. x < 256"
  shows "\<forall>c\<in>set (stdText s). c \<in> set b64std"
  using sextets_lt64 [OF assms] by (auto simp: stdText_def b64std_length)

lemma stdText_index:
  assumes "\<forall>x\<in>set s. x < 256"
  shows "map (\<lambda>c. the (indexOf b64std c)) (stdText s) = sextets s"
proof -
  have "\<forall>v\<in>set (sextets s). the (indexOf b64std (b64std ! v)) = v"
    using sextets_lt64 [OF assms] by (simp add: indexOf_nth b64std_distinct b64std_length)
  then show ?thesis
    by (simp add: stdText_def map_idI)
qed

lemma b64std_not_special:
  "c \<in> set b64std \<Longrightarrow> \<not> asciiWhitespace c \<and> c \<noteq> eqSign \<and> c \<noteq> 45 \<and> c \<noteq> 95 \<and> c < 128"
  by (auto simp: b64std_set asciiWhitespace_def eqSign_def)

lemma dropLastEq_snoc: "dropLastEq (u @ [eqSign]) = u"
  by (simp add: dropLastEq_def)

lemma dropLastEq_pad:
  assumes "\<forall>c\<in>set t. c \<noteq> eqSign" and "k \<le> 2"
  shows "dropLastEq (dropLastEq (t @ replicate k eqSign)) = t"
proof -
  have n: "dropLastEq t = t"
    using assms(1) by (cases t rule: rev_cases) (simp_all add: dropLastEq_def)
  have "k = 0 \<or> k = 1 \<or> k = 2"
    using assms(2) by arith
  then show ?thesis
  proof (elim disjE)
    assume "k = 0"
    then show ?thesis by (simp add: n)
  next
    assume "k = 1"
    then show ?thesis by (simp add: dropLastEq_snoc n)
  next
    assume k: "k = 2"
    have "t @ replicate k eqSign = (t @ [eqSign]) @ [eqSign]"
      using k by (simp add: numeral_2_eq_2)
    then have "dropLastEq (t @ replicate k eqSign) = t @ [eqSign]"
      by (simp only: dropLastEq_snoc)
    then show ?thesis by (simp add: dropLastEq_snoc)
  qed
qed

lemma sextets_length_cases:
  "length s mod 3 = 0 \<Longrightarrow> length (sextets s) = 4 * (length s div 3)"
  "length s mod 3 = 1 \<Longrightarrow> length (sextets s) = 4 * (length s div 3) + 2"
  "length s mod 3 = 2 \<Longrightarrow> length (sextets s) = 4 * (length s div 3) + 3"
proof -
  define q where "q = length s div 3"
  have f0: "(4 * (3 * q) + 2) div 3 = 4 * q"
    using div_mult_self4 [of 3 "4 * q" 2] by simp
  have f1: "(4 * (3 * q + 1) + 2) div 3 = 4 * q + 2"
    using div_mult_self4 [of 3 "4 * q + 2" 0] by simp
  have f2: "(4 * (3 * q + 2) + 2) div 3 = 4 * q + 3"
    using div_mult_self4 [of 3 "4 * q + 3" 1] by simp
  have d: "length s = 3 * q + length s mod 3"
    unfolding q_def by simp
  show "length s mod 3 = 0 \<Longrightarrow> length (sextets s) = 4 * (length s div 3)"
    using d f0 by (simp add: sextets_length q_def [symmetric])
  show "length s mod 3 = 1 \<Longrightarrow> length (sextets s) = 4 * (length s div 3) + 2"
    using d f1 by (simp add: sextets_length q_def [symmetric])
  show "length s mod 3 = 2 \<Longrightarrow> length (sextets s) = 4 * (length s div 3) + 3"
    using d f2 by (simp add: sextets_length q_def [symmetric])
qed

lemma mod3_cases: "(n :: nat) mod 3 = 0 \<or> n mod 3 = 1 \<or> n mod 3 = 2"
  by arith

lemma mod4_facts:
  "(4 * q + 2) mod 4 = (2 :: nat)" "(4 * q + 3) mod 4 = (3 :: nat)"
  "(4 * q + 2 + 2) mod 4 = (0 :: nat)" "(4 * q + 3 + 1) mod 4 = (0 :: nat)"
  by presburger+

lemma padded_length:
  "(length (stdText s) + padCount (length s)) mod 4 = 0"
proof -
  have "length s mod 3 = 0 \<or> length s mod 3 = 1 \<or> length s mod 3 = 2"
    by (rule mod3_cases)
  then show ?thesis
  proof (elim disjE)
    assume r: "length s mod 3 = 0"
    show ?thesis
      unfolding stdText_def padCount_def length_map sextets_length_cases(1) [OF r] r by simp
  next
    assume r: "length s mod 3 = 1"
    show ?thesis
      unfolding stdText_def padCount_def length_map sextets_length_cases(2) [OF r] r
      using mod4_facts(3) by simp
  next
    assume r: "length s mod 3 = 2"
    show ?thesis
      unfolding stdText_def padCount_def length_map sextets_length_cases(3) [OF r] r
      using mod4_facts(4) by simp
  qed
qed

lemma stdText_length_mod:
  "length (stdText s) mod 4 = (4 - padCount (length s)) mod 4"
proof -
  have "length s mod 3 = 0 \<or> length s mod 3 = 1 \<or> length s mod 3 = 2"
    by (rule mod3_cases)
  then show ?thesis
  proof (elim disjE)
    assume r: "length s mod 3 = 0"
    show ?thesis
      unfolding stdText_def padCount_def length_map sextets_length_cases(1) [OF r] r by simp
  next
    assume r: "length s mod 3 = 1"
    show ?thesis
      unfolding stdText_def padCount_def length_map sextets_length_cases(2) [OF r] r
      using mod4_facts(1) by simp
  next
    assume r: "length s mod 3 = 2"
    show ?thesis
      unfolding stdText_def padCount_def length_map sextets_length_cases(3) [OF r] r
      using mod4_facts(2) by simp
  qed
qed

lemma padCount_le: "padCount n \<le> 2"
  unfolding padCount_def by arith

lemma btoa_text:
  assumes "\<forall>x\<in>set s. x < 256"
  shows "btoa s = Inr (stdText s @ replicate (padCount (length s)) eqSign)"
proof -
  have "\<not> list_ex (\<lambda>c. 255 < c) s"
    using assms by (auto simp: list_ex_iff)
  then show ?thesis
    by (simp add: btoa_def stdText_def padCount_def)
qed

lemma atob_text:
  assumes "\<forall>x\<in>set s. x < 256"
  shows "atob (stdText s @ replicate (padCount (length s)) eqSign) = Inr s"
proof -
  let ?t = "stdText s" and ?k = "padCount (length s)"
  have al: "\<forall>c\<in>set ?t. c \<in> set b64std"
    using assms by (rule stdText_in_alphabet)
  have nw: "filter (\<lambda>c. \<not> asciiWhitespace c) (?t @ replicate ?k eqSign) = ?t @ replicate ?k eqSign"
    using al b64std_not_special by (auto simp: filter_id_conv asciiWhitespace_def eqSign_def)
  have ne: "\<forall>c\<in>set ?t. c \<noteq> eqSign"
    using al b64std_not_special by blast
  have d: "dropLastEq (dropLastEq (?t @ replicate ?k eqSign)) = ?t"
    using ne padCount_le by (rule dropLastEq_pad)
  have m: "length (?t @ replicate ?k eqSign) mod 4 = 0"
    using padded_length [of s] by simp
  have m1: "length ?t mod 4 \<noteq> 1"
  proof -
    have "?k = 0 \<or> ?k = 1 \<or> ?k = 2" using padCount_le [of "length s"] by arith
    then show ?thesis using stdText_length_mod [of s] by auto
  qed
  have ok: "\<not> list_ex (\<lambda>c. indexOf b64std c = None) ?t"
    using al by (simp add: list_ex_iff indexOf_None)
  have "atob (?t @ replicate ?k eqSign) = Inr (octets (map (\<lambda>c. the (indexOf b64std c)) ?t))"
    unfolding atob_def nw Let_def using m d m1 ok by simp
  then show ?thesis
    by (simp add: stdText_index [OF assms] octets_sextets [OF assms])
qed



lemma replaceAll_back:
  assumes "\<forall>c\<in>set t. c \<noteq> 45 \<and> c \<noteq> 95"
  shows "replaceAll 95 47 (replaceAll 45 43 (replaceAll 47 95 (replaceAll 43 45 t))) = t"
  using assms by (induction t) (simp_all add: replaceAll_def)

lemma replaceAll_append: "replaceAll x y (a @ b) = replaceAll x y a @ replaceAll x y b"
  by (simp add: replaceAll_def)

lemma replaceAll_pad:
  "replaceAll 43 45 (replicate k eqSign) = replicate k eqSign"
  "replaceAll 47 95 (replicate k eqSign) = replicate k eqSign"
  "replaceAll 45 43 (replicate k eqSign) = replicate k eqSign"
  "replaceAll 95 47 (replicate k eqSign) = replicate k eqSign"
  by (simp_all add: replaceAll_def eqSign_def)

lemma replaceAll_length: "length (replaceAll x y t) = length t"
  by (simp add: replaceAll_def)

lemma urlText_chars:
  assumes "\<forall>c\<in>set t. c \<in> set b64std"
  shows "\<forall>c\<in>set (replaceAll 47 95 (replaceAll 43 45 t)). c < 128 \<and> c \<noteq> eqSign"
  using assms b64std_not_special by (fastforce simp: replaceAll_def eqSign_def)

lemma stripTrailingEq_pad:
  assumes "\<forall>c\<in>set u. c \<noteq> eqSign"
  shows "stripTrailingEq (u @ replicate k eqSign) = u"
proof -
  have "dropWhile (\<lambda>c. c = eqSign) (rev u) = rev u"
    using assms by (cases u rule: rev_cases) simp_all
  then show ?thesis
    by (simp add: stripTrailingEq_def dropWhile_append)
qed

lemma unat_bytes_lt: "\<forall>x\<in>set (map unat (b :: byte list)). x < 256"
proof
  fix x assume "x \<in> set (map unat b)"
  then obtain w :: byte where "x = unat w" by auto
  then show "x < 256" using unsigned_less [of w, where ?'a = nat] by simp
qed

lemma encodeBase64Url_text:
  "encodeBase64Url b strip =
     Inr (replaceAll 47 95 (replaceAll 43 45 (stdText (map unat b)))
          @ (if strip then [] else replicate (padCount (length b)) eqSign))"
proof -
  let ?s = "map unat b"
  let ?u = "replaceAll 47 95 (replaceAll 43 45 (stdText ?s))"
  have bt: "btoa ?s = Inr (stdText ?s @ replicate (padCount (length ?s)) eqSign)"
    using unat_bytes_lt by (rule btoa_text)
  have al: "\<forall>c\<in>set (stdText ?s). c \<in> set b64std"
    using unat_bytes_lt by (rule stdText_in_alphabet)
  have ne: "\<forall>c\<in>set ?u. c \<noteq> eqSign"
    using urlText_chars [OF al] by blast
  have r: "replaceAll 47 95 (replaceAll 43 45 (stdText ?s @ replicate (padCount (length b)) eqSign))
             = ?u @ replicate (padCount (length b)) eqSign"
    by (simp add: replaceAll_append replaceAll_pad)
  show ?thesis
    unfolding encodeBase64Url_def Let_def bt
    using stripTrailingEq_pad [OF ne] by (simp add: r)
qed

lemma map_unat_of_nat:
  "\<forall>c\<in>set t. c < 256 \<Longrightarrow> map unat (map of_nat t :: byte list) = t"
  by (induction t) (simp_all add: unat_of_nat)

lemma decodeBase64Url_text:
  assumes j: "j = 0 \<or> j = padCount (length b)"
  shows "decodeBase64Url
           (map of_nat (replaceAll 47 95 (replaceAll 43 45 (stdText (map unat b)))
                        @ replicate j eqSign))
         = Inr b"
proof -
  let ?s = "map unat b"
  let ?t = "stdText ?s"
  let ?u = "replaceAll 47 95 (replaceAll 43 45 ?t)"
  let ?k = "padCount (length b)"
  have lt: "\<forall>x\<in>set ?s. x < 256" by (rule unat_bytes_lt)
  have al: "\<forall>c\<in>set ?t. c \<in> set b64std"
    using lt by (rule stdText_in_alphabet)
  have small: "\<forall>c\<in>set (?u @ replicate j eqSign). c < 256"
    using urlText_chars [OF al] by (auto simp: eqSign_def)
  have un: "map unat (map of_nat (?u @ replicate j eqSign) :: byte list) = ?u @ replicate j eqSign"
    using small by (rule map_unat_of_nat)
  have bk: "replaceAll 95 47 (replaceAll 45 43 ?u) = ?t"
    using al b64std_not_special by (intro replaceAll_back) blast
  have rp: "replaceAll 95 47 (replaceAll 45 43 (?u @ replicate j eqSign)) = ?t @ replicate j eqSign"
    by (simp add: replaceAll_append replaceAll_pad bk)
  have kk: "?k = 0 \<or> ?k = 1 \<or> ?k = 2"
    using padCount_le [of "length b"] by arith
  have lm: "length ?t mod 4 = (4 - ?k) mod 4"
    using stdText_length_mod [of ?s] by simp
  have pl: "(length ?t + ?k) mod 4 = 0"
    using padded_length [of ?s] by simp
  have pad: "?t @ replicate j eqSign
               @ replicate (if length (?t @ replicate j eqSign) mod 4 > 0
                            then 4 - length (?t @ replicate j eqSign) mod 4 else 0) eqSign
             = ?t @ replicate ?k eqSign"
  proof (cases "j = 0")
    case True
    then show ?thesis using kk lm by auto
  next
    case False
    then have "j = ?k" using j by simp
    then show ?thesis using pl by simp
  qed
  have at: "atob (?t @ replicate ?k eqSign) = Inr ?s"
    using atob_text [OF lt] by simp
  have "decodeBase64Url (map of_nat (?u @ replicate j eqSign)) = Inr (map of_nat ?s)"
    unfolding decodeBase64Url_def Let_def un rp
    using pad at by (simp add: replaceAll_length)
  then show ?thesis
    by (simp add: comp_def)
qed

lemma urlText_ascii:
  "\<forall>c\<in>set (replaceAll 47 95 (replaceAll 43 45 (stdText (map unat (b :: byte list))))
             @ replicate j eqSign). c < 128"
proof -
  have al: "\<forall>c\<in>set (stdText (map unat b)). c \<in> set b64std"
    using unat_bytes_lt by (rule stdText_in_alphabet)
  show ?thesis
    using urlText_chars [OF al] by (auto simp: eqSign_def)
qed

lemma base64_round_trip:
  "\<exists>t. encodeBase64Url b strip = Inr t \<and> decodeBase64Url (Utf8_encode t) = Inr b"
proof -
  let ?u = "replaceAll 47 95 (replaceAll 43 45 (stdText (map unat b)))"
  let ?j = "if strip then 0 else padCount (length b)"
  have e: "encodeBase64Url b strip = Inr (?u @ replicate ?j eqSign)"
    by (simp add: encodeBase64Url_text)
  have u8: "Utf8_encode (?u @ replicate ?j eqSign) = map of_nat (?u @ replicate ?j eqSign)"
    using urlText_ascii by (rule Utf8_encode_ascii)
  have "decodeBase64Url (map of_nat (?u @ replicate ?j eqSign)) = Inr b"
    by (rule decodeBase64Url_text) simp
  then show ?thesis
    using e u8 by simp
qed



lemma BASE64_set:
  "c \<in> set BASE64 \<longleftrightarrow>
     (65 \<le> c \<and> c \<le> 90) \<or> (97 \<le> c \<and> c \<le> 122) \<or> (48 \<le> c \<and> c \<le> 57) \<or> c = 45 \<or> c = 95"
  unfolding BASE64_ranges by (auto simp del: upt_rec_numeral)

lemma dropLastEq_keeps: "x \<in> set d \<Longrightarrow> x \<noteq> eqSign \<Longrightarrow> x \<in> set (dropLastEq d)"
proof (cases d rule: rev_cases)
  case Nil
  assume "x \<in> set d" then show ?thesis using Nil by simp
next
  case (snoc ys y)
  assume "x \<in> set d" and "x \<noteq> eqSign"
  then show ?thesis using snoc by (auto simp: dropLastEq_def)
qed

lemma atob_invalid:
  assumes "x \<in> set t" and "x \<notin> set b64std" and "x \<noteq> eqSign" and "\<not> asciiWhitespace x"
  shows "atob t = Inl InvalidCharacterError"
proof -
  let ?d1 = "filter (\<lambda>c. \<not> asciiWhitespace c) t"
  let ?d2 = "if length ?d1 mod 4 = 0 then dropLastEq (dropLastEq ?d1) else ?d1"
  have "x \<in> set ?d1" using assms(1,4) by simp
  then have "x \<in> set ?d2" using assms(3) by (simp add: dropLastEq_keeps)
  then have "list_ex (\<lambda>c. indexOf b64std c = None) ?d2"
    using assms(2) by (auto simp: list_ex_iff indexOf_None)
  then show ?thesis
    unfolding atob_def Let_def by simp
qed

lemma decodeBase64Url_invalid:
  assumes "c \<in> set array" and "unat c \<notin> set BASE64 \<union> {43, 47, 61}"
    and "\<not> asciiWhitespace (unat c)"
  shows "decodeBase64Url array = Inl InvalidCharacterError"
proof -
  let ?x = "unat c"
  let ?t = "replaceAll 95 47 (replaceAll 45 43 (map unat array))"
  have n: "?x \<noteq> 45" "?x \<noteq> 95" "?x \<noteq> 43" "?x \<noteq> 47" "?x \<noteq> eqSign" "?x \<notin> set BASE64"
    using assms(2) by (auto simp: BASE64_set eqSign_def)
  have "?x \<in> set (map unat array)" using assms(1) by simp
  then have "?x \<in> set ?t"
    using n(1,2) by (auto simp: replaceAll_def)
  then have m: "?x \<in> set (?t @ replicate k eqSign)" for k by simp
  have nb: "?x \<notin> set b64std"
    using n by (auto simp: b64std_set BASE64_set)
  have "atob (?t @ replicate k eqSign) = Inl InvalidCharacterError" for k
    using m nb n(5) assms(3) by (rule atob_invalid)
  then show ?thesis
    unfolding decodeBase64Url_def Let_def by simp
qed

lemma indexOf_b64std_values:
  "indexOf b64std 65 = Some 0" "indexOf b64std 66 = Some 1"
  "indexOf b64std 43 = Some 62" "indexOf b64std 47 = Some 63"
  unfolding b64std_ranges by simp_all

lemma Utf8_encode_AAplus: "Utf8_encode (js ''AA+/'') = [65, 65, 43, 47]"
proof -
  have "Utf8_encode (js ''AA+/'') = map of_nat (js ''AA+/'')"
    by (rule Utf8_encode_ascii) (simp add: js_def)
  then show ?thesis by (simp add: js_def)
qed

lemma Utf8_encode_AB: "Utf8_encode (js ''AB'') = [65, 66]"
proof -
  have "Utf8_encode (js ''AB'') = map of_nat (js ''AB'')"
    by (rule Utf8_encode_ascii) (simp add: js_def)
  then show ?thesis by (simp add: js_def)
qed

lemma atob_AAplus: "atob [65, 65, 43, 47] = Inr [0, 15, 191]"
  by (simp add: atob_def asciiWhitespace_def dropLastEq_def eqSign_def indexOf_b64std_values)

lemma atob_AB: "atob [65, 66, 61, 61] = Inr [0]"
  by (simp add: atob_def asciiWhitespace_def dropLastEq_def eqSign_def indexOf_b64std_values)

lemma decode_AAplus: "decodeBase64Url (Utf8_encode (js ''AA+/'')) = Inr [0, 15, 191]"
  unfolding Utf8_encode_AAplus
  by (simp add: decodeBase64Url_def replaceAll_def atob_AAplus)

lemma replicate_two: "replicate 2 x = [x, x]"
  by (simp add: numeral_2_eq_2)

lemma decode_AB: "decodeBase64Url (Utf8_encode (js ''AB'')) = Inr [0]"
  unfolding Utf8_encode_AB
  by (simp add: decodeBase64Url_def replaceAll_def eqSign_def replicate_two
      atob_AB [unfolded eqSign_def])

lemma encode_zero: "encodeBase64Url [0] True = Inr (js ''AA'')"
  by (simp add: encodeBase64Url_text stdText_def replaceAll_def b64std_ranges js_def)

text \<open>
  Claim C8, as stated, fails in two places. The characters \<open>+\<close> and \<open>/\<close> are outside the
  URL-safe alphabet, and \<open>AA+/\<close> decodes to three bytes instead of failing. The two
  functions are not inverse to each other in both directions: \<open>AB\<close> decodes to the byte 0,
  which encodes to \<open>AA\<close>.
\<close>

theorem base64_outside_alphabet_counterexample:
  "decodeBase64Url (Utf8_encode (js ''AA+/'')) = Inr [0, 15, 191]
   \<and> 43 \<notin> set BASE64 \<and> 47 \<notin> set BASE64
   \<and> decodeBase64Url (Utf8_encode (js ''AB'')) = Inr [0]
   \<and> encodeBase64Url [0] True = Inr (js ''AA'')
   \<and> js ''AA'' \<noteq> js ''AB''"
  by (simp add: decode_AAplus decode_AB encode_zero BASE64_set) (simp add: js_def)

text \<open>
  Claim C8, amended. For every byte array, decoding the text that \<^verbatim>\<open>encodeBase64Url\<close>
  produces for it, with the padding stripped or kept, gives the byte array back.
  Decoding maps \<open>-\<close> to \<open>+\<close> and \<open>_\<close> to \<open>/\<close>, pads with \<open>=\<close> to a multiple of four and
  calls \<^verbatim>\<open>atob\<close>. Decoding fails with the \<open>InvalidCharacterError\<close> of \<^verbatim>\<open>atob\<close> when the
  input has a character that is not in the URL-safe alphabet, not \<open>+\<close>, \<open>/\<close> or \<open>=\<close> and not
  ASCII white space.
\<close>

theorem base64_codec:
  "(\<exists>t. encodeBase64Url b strip = Inr t \<and> decodeBase64Url (Utf8_encode t) = Inr b)
   \<and> decodeBase64Url array
       = map_sum id (map of_nat)
           (atob (replaceAll 95 47 (replaceAll 45 43 (map unat array))
                  @ replicate ((4 - length array mod 4) mod 4) eqSign))
   \<and> ((\<exists>c\<in>set array. unat c \<notin> set BASE64 \<union> {43, 47, 61} \<and> \<not> asciiWhitespace (unat c))
        \<longrightarrow> decodeBase64Url array = Inl InvalidCharacterError)"
proof (intro conjI impI)
  show "\<exists>t. encodeBase64Url b strip = Inr t \<and> decodeBase64Url (Utf8_encode t) = Inr b"
    by (rule base64_round_trip)
next
  have "(if length array mod 4 > 0 then 4 - length array mod 4 else 0) = (4 - length array mod 4) mod 4"
    by simp
  then show "decodeBase64Url array
       = map_sum id (map of_nat)
           (atob (replaceAll 95 47 (replaceAll 45 43 (map unat array))
                  @ replicate ((4 - length array mod 4) mod 4) eqSign))"
    unfolding decodeBase64Url_def Let_def
    by (simp add: replaceAll_length split: sum.splits)
next
  assume "\<exists>c\<in>set array. unat c \<notin> set BASE64 \<union> {43, 47, 61} \<and> \<not> asciiWhitespace (unat c)"
  then show "decodeBase64Url array = Inl InvalidCharacterError"
    using decodeBase64Url_invalid by blast
qed

theorem base64_codec_witness:
  "(\<exists>t. encodeBase64Url [1, 2, 3, 4, 255] True = Inr t \<and> decodeBase64Url (Utf8_encode t) = Inr [1, 2, 3, 4, 255])
   \<and> (\<exists>c\<in>set [65, 33 :: byte]. unat c \<notin> set BASE64 \<union> {43, 47, 61} \<and> \<not> asciiWhitespace (unat c))
   \<and> decodeBase64Url [65, 33] = Inl InvalidCharacterError"
proof -
  have h: "\<exists>c\<in>set [65, 33 :: byte]. unat c \<notin> set BASE64 \<union> {43, 47, 61} \<and> \<not> asciiWhitespace (unat c)"
    by (simp add: BASE64_set asciiWhitespace_def)
  show ?thesis
    using h base64_codec [of "[1, 2, 3, 4, 255]" True "[65, 33]"] by blast
qed


subsection \<open>Pad bits and lead bytes\<close>

lemma dropLastEq_prefix_A:
  "\<exists>r. dropLastEq (replicate k 65 @ x) = replicate k 65 @ r"
proof (cases x rule: rev_cases)
  case Nil
  have "dropLastEq (replicate k 65) = replicate k 65"
    by (cases k) (simp_all add: dropLastEq_def eqSign_def)
  then show ?thesis using Nil by simp
next
  case (snoc ys y)
  then have "dropLastEq (replicate k 65 @ x) = replicate k 65 @ (if y = eqSign then ys else ys @ [y])"
    by (simp add: dropLastEq_def butlast_append)
  then show ?thesis by blast
qed

lemma indexOf_bound: "indexOf xs c = Some i \<Longrightarrow> i < length xs"
  by (induction xs arbitrary: i) (auto split: if_splits)

lemma atob_prefix_A:
  assumes "atob (replicate k 65 @ t) = Inr bs"
  shows "\<exists>vs. (\<forall>v\<in>set vs. v < 64) \<and> bs = octets (replicate k 0 @ vs)"
proof -
  let ?d1 = "filter (\<lambda>c. \<not> asciiWhitespace c) (replicate k 65 @ t)"
  have f: "?d1 = replicate k 65 @ filter (\<lambda>c. \<not> asciiWhitespace c) t"
    by (simp add: asciiWhitespace_def)
  let ?d2 = "if length ?d1 mod 4 = 0 then dropLastEq (dropLastEq ?d1) else ?d1"
  obtain r where r: "?d2 = replicate k 65 @ r"
  proof (cases "length ?d1 mod 4 = 0")
    case True
    obtain r1 where r1: "dropLastEq ?d1 = replicate k 65 @ r1"
      unfolding f using dropLastEq_prefix_A by blast
    obtain r2 where "dropLastEq (replicate k 65 @ r1) = replicate k 65 @ r2"
      using dropLastEq_prefix_A by blast
    then show ?thesis using that True r1 by simp
  next
    case False
    then show ?thesis using that f by simp
  qed
  have ok: "\<not> list_ex (\<lambda>c. indexOf b64std c = None) ?d2"
    and bs: "bs = octets (map (\<lambda>c. the (indexOf b64std c)) ?d2)"
    using assms unfolding atob_def Let_def by (auto split: if_splits)
  let ?vs = "map (\<lambda>c. the (indexOf b64std c)) r"
  have "\<forall>c\<in>set r. indexOf b64std c \<noteq> None"
    using ok unfolding r by (auto simp: list_ex_iff)
  then have "\<forall>v\<in>set ?vs. v < 64"
    using indexOf_bound [of b64std] b64std_length by fastforce
  moreover have z: "the (indexOf b64std 65) = 0"
    by (simp add: indexOf_b64std_values)
  have "bs = octets (replicate k 0 @ ?vs)"
    using bs unfolding r by (simp add: z)
  ultimately show ?thesis by blast
qed

lemma roundNumber_small: "n < 2 ^ 53 \<Longrightarrow> roundNumber n = Finite n"
proof -
  assume a: "n < 2 ^ 53"
  have "(2 :: nat) ^ 53 \<le> 2 ^ 1024"
    by (rule power_increasing) simp_all
  then have "\<not> 2 ^ 1024 \<le> n"
    using a by linarith
  then show ?thesis
    using a by (simp add: roundNumber_def toDouble_small)
qed

lemma readIntExact_snoc: "readIntExact (xs @ [x]) = readIntExact xs * 256 + unat x"
  by (simp add: readIntExact_def)

lemma readInt_snoc: "readInt (xs @ [x]) = readInt_step (readInt xs) x"
  by (simp add: readInt_def)

lemma readInt_exact:
  "readIntExact xs < 2 ^ 53 \<Longrightarrow> readInt xs = Finite (readIntExact xs)"
proof (induction xs rule: rev_induct)
  case Nil
  show ?case by (simp add: readInt_def readIntExact_def)
next
  case (snoc x xs)
  have b: "readIntExact xs * 256 + unat x < 2 ^ 53"
    using snoc.prems by (simp add: readIntExact_snoc)
  then have c: "readIntExact xs * 256 < 2 ^ 53" "readIntExact xs < 2 ^ 53"
    by linarith+
  have "readInt xs = Finite (readIntExact xs)"
    using c(2) by (rule snoc.IH)
  then show ?case
    by (simp add: readInt_snoc readIntExact_snoc readInt_step_def roundNumber_small [OF c(1)]
        roundNumber_small [OF b])
qed

lemma readIntExact_bound: "readIntExact xs < 256 ^ length xs"
proof (induction xs rule: rev_induct)
  case Nil
  show ?case by (simp add: readIntExact_def)
next
  case (snoc x xs)
  have "unat x < 256"
    using unsigned_less [of x, where ?'a = nat] by simp
  moreover have "readIntExact xs + 1 \<le> 256 ^ length xs"
    using snoc.IH by simp
  then have "(readIntExact xs + 1) * 256 \<le> 256 ^ length xs * 256"
    by (rule mult_right_mono) simp
  ultimately show ?case
    by (simp add: readIntExact_snoc)
qed

lemma readInt_short:
  assumes "length xs \<le> 6"
  shows "readInt xs = Finite (readIntExact xs)"
proof -
  have "(256 :: nat) ^ length xs \<le> 256 ^ 6"
    using assms by (intro power_increasing) simp_all
  also have "\<dots> < (2 :: nat) ^ 53"
    by simp
  finally have "readIntExact xs < 2 ^ 53"
    using readIntExact_bound [of xs] by linarith
  then show ?thesis
    by (rule readInt_exact)
qed

lemma readIntExact_simps:
  "readIntExact [] = 0" "readIntExact [a] = unat a"
  "readIntExact [a, b] = unat a * 256 + unat b"
  "readIntExact [a, b, c] = (unat a * 256 + unat b) * 256 + unat c"
  by (simp_all add: readIntExact_def)

lemma readInt_simps:
  "readInt [] = Finite 0" "readInt [a] = Finite (unat a)"
  "readInt [a, b] = Finite (unat a * 256 + unat b)"
  "readInt [a, b, c] = Finite ((unat a * 256 + unat b) * 256 + unat c)"
  by (simp_all add: readInt_short readIntExact_simps)

lemma readInt_zeros: "readInt (replicate n 0) = Finite 0"
proof -
  have "readIntExact (replicate n 0) = 0"
    by (induction n) (simp_all add: readIntExact_def)
  then show ?thesis
    using readInt_exact [of "replicate n 0"] by simp
qed

lemma pad_integer_1:
  assumes "\<forall>v\<in>set vs. v < 64"
  shows "readIntExact (take 1 (map of_nat (octets (replicate 1 0 @ vs)))) < 4"
proof (cases vs)
  case Nil
  then show ?thesis by (simp add: readIntExact_simps)
next
  case (Cons a as)
  have a: "a < 64" using assms Cons by simp
  then have "a div 16 < 4" by simp
  then have u: "unat (of_nat (a div 16) :: byte) < 4"
    by (simp add: unat_of_nat)
  show ?thesis
    using Cons u
    by (cases as; cases "tl as"; cases "tl (tl as)") (simp_all add: readIntExact_simps)
qed


lemma pad_integer_2:
  assumes "\<forall>v\<in>set vs. v < 64"
  shows "readIntExact (take 2 (map of_nat (octets (replicate 2 0 @ vs)))) < 16"
proof (cases vs)
  case Nil
  then show ?thesis by (simp add: readIntExact_simps numeral_2_eq_2)
next
  case (Cons a as)
  have a: "a < 64" using assms Cons by simp
  then have "a div 4 < 16" by simp
  then have u: "unat (of_nat (a div 4) :: byte) < 16"
    by (simp add: unat_of_nat)
  have r: "replicate 2 (0 :: nat) = [0, 0]" by (simp add: numeral_2_eq_2)
  show ?thesis
    unfolding r using Cons u
    by (cases as) (simp_all add: readIntExact_simps)
qed

lemma pad_integer_3:
  assumes "\<forall>v\<in>set vs. v < 64"
  shows "readIntExact (take 3 (map of_nat (octets (replicate 3 0 @ vs)))) < 64"
proof (cases vs)
  case Nil
  then show ?thesis by (simp add: readIntExact_simps numeral_3_eq_3)
next
  case (Cons a as)
  have a: "a < 64" using assms Cons by simp
  then have u: "unat (of_nat a :: byte) < 64"
    by (simp add: unat_of_nat)
  have r: "replicate 3 (0 :: nat) = [0, 0, 0]" by (simp add: numeral_3_eq_3)
  show ?thesis
    unfolding r using Cons u by (simp add: readIntExact_simps)
qed

lemma pad_integer:
  assumes "0 < k" and "k < 4" and "\<forall>v\<in>set vs. v < 64"
  shows "readIntExact (take k (map of_nat (octets (replicate k 0 @ vs)))) < 2 ^ (2 * k)"
proof -
  have "k = 1 \<or> k = 2 \<or> k = 3" using assms(1,2) by arith
  then show ?thesis
    using pad_integer_1 [OF assms(3)] pad_integer_2 [OF assms(3)] pad_integer_3 [OF assms(3)]
    by auto
qed

lemma and_low_bits:
  assumes "(n :: nat) < 2 ^ k"
  shows "and n (2 ^ k - 1) = n"
proof -
  have "and n (2 ^ k - 1) = and n (mask k)"
    by (simp only: mask_eq_exp_minus_1)
  also have "\<dots> = take_bit k n"
    by (simp only: take_bit_eq_mask)
  also have "\<dots> = n"
    using assms by (simp add: take_bit_nat_eq_self)
  finally show ?thesis .
qed

lemma andInt32_zero: "andInt32 (Finite 0) k = 0"
  by (simp add: andInt32_def)

lemma andInt32_low:
  assumes "n < 2 ^ k" and "k \<le> 6"
  shows "andInt32 (Finite n) (2 ^ k - 1) = int n"
proof -
  have f: "and n (2 ^ k - 1) = n"
    using assms(1) by (rule and_low_bits)
  have "(2 :: nat) ^ k \<le> 2 ^ 6"
    using assms(2) by (intro power_increasing) simp_all
  then have n: "n < 64"
    using assms(1) by simp
  have "and (of_nat n :: 32 word) (of_nat (2 ^ k - 1)) = of_nat (and n (2 ^ k - 1))"
    by (simp add: of_nat_and_eq)
  then have "and (of_nat n :: 32 word) (of_nat (2 ^ k - 1)) = of_nat n"
    by (simp only: f)
  moreover have "sint (of_nat n :: 32 word) = int n"
    using n by (simp add: signed_of_nat signed_take_bit_int_eq_self)
  ultimately show ?thesis
    by (simp add: andInt32_def)
qed

lemma decodeBase64Url_prefix_A:
  assumes "0 < k" and "k < 4" and "decodeBase64Url (replicate k 65 @ rest) = Inr paw"
  shows "readIntExact (take k paw) < 2 ^ (2 * k)"
proof -
  let ?m = "replaceAll 95 47 (replaceAll 45 43 (map unat rest))"
  have e: "replaceAll 95 47 (replaceAll 45 43 (map unat (replicate k (65 :: byte) @ rest)))
             = replicate k 65 @ ?m"
    by (simp add: replaceAll_def)
  obtain bs pad where a: "atob (replicate k 65 @ ?m @ pad) = Inr bs" and p: "paw = map of_nat bs"
    using assms(3) unfolding decodeBase64Url_def Let_def e
    by (auto split: sum.splits)
  obtain vs where vs: "\<forall>v\<in>set vs. v < 64" "bs = octets (replicate k 0 @ vs)"
    using atob_prefix_A [OF a] by blast
  show ?thesis
    unfolding p vs(2) using assms(1,2) vs(1) by (rule pad_integer)
qed

text \<open>
  The last part of the extractor. With \<open>ps = cs mod 4\<close>: when \<open>ps > 0\<close> it puts \<open>ps\<close>
  characters \<open>A\<close> (code 65) before the material after the code and decodes; the integer of
  the first \<open>ps\<close> decoded bytes has at most \<open>2 * ps\<close> bits, so that the mask of the source
  keeps all of it. When \<open>ps = 0\<close> it decodes the material after the code as it is.
\<close>

lemma exfilRaw_checks:
  "(0 < cs mod 4 \<longrightarrow>
      (case decodeBase64Url (replicate (cs mod 4) 65 @ drop cs qb64b) of
         Inl e \<Rightarrow> exfilRaw cs ls qb64b = Inl e
       | Inr paw \<Rightarrow>
           readInt (take (cs mod 4) paw) = Finite (readIntExact (take (cs mod 4) paw))
           \<and> (readIntExact (take (cs mod 4) paw) \<noteq> 0 \<longrightarrow>
                exfilRaw cs ls qb64b
                  = Inl (NonZeroPadBits (int (readIntExact (take (cs mod 4) paw)))))
           \<and> (readIntExact (take (cs mod 4) paw) = 0 \<longrightarrow>
                exfilRaw cs ls qb64b = Inr (drop (cs mod 4) paw))))
   \<and> (cs mod 4 = 0 \<longrightarrow>
      (case decodeBase64Url (drop cs qb64b) of
         Inl e \<Rightarrow> exfilRaw cs ls qb64b = Inl e
       | Inr paw \<Rightarrow>
           (readInt (take ls paw) \<noteq> Finite 0 \<longrightarrow>
              exfilRaw cs ls qb64b = Inl (NonZeroLeadBytes (readInt (take ls paw))))
           \<and> (readInt (take ls paw) = Finite 0 \<longrightarrow>
              exfilRaw cs ls qb64b = Inr (drop ls paw))))"
proof (intro conjI impI)
  assume ps: "0 < cs mod 4"
  show "case decodeBase64Url (replicate (cs mod 4) 65 @ drop cs qb64b) of
         Inl e \<Rightarrow> exfilRaw cs ls qb64b = Inl e
       | Inr paw \<Rightarrow>
           readInt (take (cs mod 4) paw) = Finite (readIntExact (take (cs mod 4) paw))
           \<and> (readIntExact (take (cs mod 4) paw) \<noteq> 0 \<longrightarrow>
                exfilRaw cs ls qb64b
                  = Inl (NonZeroPadBits (int (readIntExact (take (cs mod 4) paw)))))
           \<and> (readIntExact (take (cs mod 4) paw) = 0 \<longrightarrow>
                exfilRaw cs ls qb64b = Inr (drop (cs mod 4) paw))"
  proof (cases "decodeBase64Url (replicate (cs mod 4) 65 @ drop cs qb64b)")
    case (Inl e)
    then show ?thesis using ps by (simp add: exfilRaw_def)
  next
    case (Inr paw)
    have l4: "cs mod 4 < 4" by simp
    then have k6: "2 * (cs mod 4) \<le> 6" by simp
    have "length (take (cs mod 4) paw) \<le> 6"
      using l4 by simp
    then have r: "readInt (take (cs mod 4) paw) = Finite (readIntExact (take (cs mod 4) paw))"
      by (rule readInt_short)
    have "readIntExact (take (cs mod 4) paw) < 2 ^ (2 * (cs mod 4))"
      using ps l4 Inr decodeBase64Url_prefix_A by blast
    then have "andInt32 (Finite (readIntExact (take (cs mod 4) paw))) (2 ^ (2 * (cs mod 4)) - 1)
                 = int (readIntExact (take (cs mod 4) paw))"
      using k6 by (rule andInt32_low)
    then show ?thesis
      using ps Inr r by (simp add: exfilRaw_def jslice_def Let_def andInt32_zero)
  qed
next
  assume ps: "cs mod 4 = 0"
  show "case decodeBase64Url (drop cs qb64b) of
         Inl e \<Rightarrow> exfilRaw cs ls qb64b = Inl e
       | Inr paw \<Rightarrow>
           (readInt (take ls paw) \<noteq> Finite 0 \<longrightarrow>
              exfilRaw cs ls qb64b = Inl (NonZeroLeadBytes (readInt (take ls paw))))
           \<and> (readInt (take ls paw) = Finite 0 \<longrightarrow>
              exfilRaw cs ls qb64b = Inr (drop ls paw))"
    using ps by (simp add: exfilRaw_def jslice_def Let_def split: sum.splits)
qed


subsection \<open>Shortage\<close>

lemma fromMatterQB64b_empty: "fromMatterQB64b H (Bytes []) p = Inl (ShortageError EmptyMaterial)"
  by (simp add: fromMatterQB64b_def toBytes_def)

lemma fromMatterQB64b_short_hard:
  assumes "q \<noteq> []" and "MatterHards H (Utf8_decode (jslice 0 1 q)) = Some h" and "length q < h"
  shows "fromMatterQB64b H (Bytes q) p = Inl (ShortageError (NeedMore (h - length q)))"
  using assms by (simp add: fromMatterQB64b_def toBytes_def)

lemma fromMatterQB64b_path:
  assumes "q \<noteq> []" and "MatterHards H (Utf8_decode (jslice 0 1 q)) = Some h" and "h \<le> length q"
    and "getCodeTable p (Utf8_decode (jslice 0 h q)) = Inr table"
    and "spec_sizes table = Some sz" and "fullSize sz q = Inr fs'"
  shows "fromMatterQB64b H (Bytes q) p =
     (if int (length q) < fs' then Inl (ShortageError (NeedMore (nat (fs' - int (length q)))))
      else (case exfilRaw (sz_hs sz + sz_ss sz) (sz_ls sz) (jsliceTo fs' q) of
              Inl e \<Rightarrow> Inl e
            | Inr raw \<Rightarrow>
                (if \<not> checkRawLength (sz_hs sz + sz_ss sz) (sz_ls sz) (jsliceTo fs' q) raw
                 then Inl ConversionError
                 else Inr (Utf8_decode (jslice 0 h q), fs', raw))))"
  using assms by (simp add: fromMatterQB64b_def toBytes_def Let_def)

lemma fromMatterQB64b_success:
  assumes "fromMatterQB64b H (Bytes q) p = Inr (hard, fs', raw)"
  shows "\<exists>h table sz. q \<noteq> [] \<and> MatterHards H (Utf8_decode (jslice 0 1 q)) = Some h
           \<and> h \<le> length q \<and> hard = Utf8_decode (jslice 0 h q)
           \<and> getCodeTable p hard = Inr table \<and> spec_sizes table = Some sz
           \<and> fullSize sz q = Inr fs' \<and> fs' \<le> int (length q)"
  using assms unfolding fromMatterQB64b_def toBytes_def Let_def
  by (auto split: if_splits option.splits sum.splits)

lemma jslice_take:
  assumes "b \<le> k"
  shows "jslice a b (take k q) = jslice a b q"
proof -
  have m: "min (b - a) (k - a) = b - a"
    using assms by arith
  have "jslice a b (take k q) = take (b - a) (take (k - a) (drop a q))"
    by (simp add: jslice_def drop_take)
  also have "\<dots> = take (b - a) (drop a q)"
    by (simp add: m)
  finally show ?thesis
    by (simp add: jslice_def)
qed

lemma fullSize_take:
  assumes "sz_fs sz = None \<longrightarrow> sz_hs sz + sz_ss sz \<le> k"
  shows "fullSize sz (take k q) = fullSize sz q"
  using assms by (auto simp: fullSize_def Let_def jslice_take split: option.splits)

lemma truncated_shortage:
  assumes ok: "fromMatterQB64b H (Bytes q) p = Inr (hard, fs', raw)"
    and mh: "MatterHards H (Utf8_decode (jslice 0 1 q)) = Some h"
    and tb: "getCodeTable p hard = Inr table" "spec_sizes table = Some sz"
    and k: "0 < k" "h \<le> k" "sz_fs sz = None \<longrightarrow> sz_hs sz + sz_ss sz \<le> k" "int k < fs'"
  shows "fromMatterQB64b H (Bytes (take k q)) p = Inl (ShortageError (NeedMore (nat (fs' - int k))))"
proof -
  obtain h' table' sz' where s: "q \<noteq> []" "MatterHards H (Utf8_decode (jslice 0 1 q)) = Some h'"
      "h' \<le> length q" "hard = Utf8_decode (jslice 0 h' q)"
      "getCodeTable p hard = Inr table'" "spec_sizes table' = Some sz'"
      "fullSize sz' q = Inr fs'" "fs' \<le> int (length q)"
    using fromMatterQB64b_success [OF ok] by blast
  have e: "h' = h" "table' = table" "sz' = sz"
    using s mh tb by simp_all
  have kl: "k < length q" using k(4) s(8) by linarith
  have l: "length (take k q) = k" using kl by simp
  have ne: "take k q \<noteq> []" using k(1) s(1) by (cases q) simp_all
  have one: "1 \<le> k" using k(1) by simp
  have a: "MatterHards H (Utf8_decode (jslice 0 1 (take k q))) = Some h"
    unfolding jslice_take [OF one] by (rule mh)
  have b: "h \<le> length (take k q)" using k(2) l by simp
  have c: "getCodeTable p (Utf8_decode (jslice 0 h (take k q))) = Inr table"
    using tb(1) s(4) e by (simp add: jslice_take [OF k(2)])
  have d: "fullSize sz (take k q) = Inr fs'"
    using s(7) e by (simp add: fullSize_take [OF k(3)])
  have m: "min (length q) k = k" using kl by simp
  show ?thesis
    using fromMatterQB64b_path [OF ne a b c tb(2) d] k(4) by (simp add: m)
qed



lemma decode_ascii_list: "\<forall>b\<in>set bs. unat b < 128 \<Longrightarrow> Utf8_decode bs = map unat bs"
  by (rule Utf8_decode_ascii)

lemma var_stream: "Utf8_encode (js ''4AABAAAA'') = [52, 65, 65, 66, 65, 65, 65, 65]"
proof -
  have "Utf8_encode (js ''4AABAAAA'') = map of_nat (js ''4AABAAAA'')"
    by (rule Utf8_encode_ascii) (simp add: js_def)
  then show ?thesis by (simp add: js_def)
qed

lemma example_hard_4: "MatterHards exampleHards [52] = Some 2"
  by (simp add: exampleHards_def exampleMatterHards_def)

lemma example_table_4A:
  "getCodeTable exampleProtocol [52, 65] = Inr (matterSpec 2 2 None 0)"
  by (simp add: getCodeTable_def exampleProtocol_def exampleContext_def js_def)

lemma example_sizes:
  "spec_sizes (matterSpec h s f l) = Some \<lparr>sz_hs = h, sz_ss = s, sz_fs = f, sz_ls = l\<rparr>"
  by (simp add: matterSpec_def)

lemma indexOf_BASE64_values:
  "indexOf BASE64 65 = Some 0" "indexOf BASE64 66 = Some 1"
  unfolding BASE64_ranges by simp_all

lemma toInt_AB: "Base64_toInt [65, 66] = Inr 1"
  by (simp add: Base64_toInt_def Base64_valueOf_def indexOf_BASE64_values)

lemma toInt_A: "Base64_toInt [65] = Inr 0"
  by (simp add: Base64_toInt_def Base64_valueOf_def indexOf_BASE64_values)

lemma atob_AAAA: "atob [65, 65, 65, 65] = Inr [0, 0, 0]"
  by (simp add: atob_def asciiWhitespace_def dropLastEq_def eqSign_def indexOf_b64std_values)

lemma decode_AAAA: "decodeBase64Url [65, 65, 65, 65] = Inr [0, 0, 0]"
  by (simp add: decodeBase64Url_def replaceAll_def atob_AAAA)

lemma var_stream_decoded:
  "fromMatterQB64b exampleHards (Bytes [52, 65, 65, 66, 65, 65, 65, 65]) exampleProtocol
     = Inr ([52, 65], 8, [0, 0, 0])"
proof -
  let ?q = "[52, 65, 65, 66, 65, 65, 65, 65] :: byte list"
  let ?sz = "\<lparr>sz_hs = 2, sz_ss = 2, sz_fs = None, sz_ls = 0\<rparr>"
  have d1: "Utf8_decode (jslice 0 1 ?q) = [52]"
    by (simp add: jslice_def decode_ascii_list)
  have d2: "Utf8_decode (jslice 0 2 ?q) = [52, 65]"
    by (simp add: jslice_def decode_ascii_list)
  have d3: "Utf8_decode (jslice 2 4 ?q) = [65, 66]"
    by (simp add: jslice_def decode_ascii_list)
  have a: "MatterHards exampleHards (Utf8_decode (jslice 0 1 ?q)) = Some 2"
    unfolding d1 by (rule example_hard_4)
  have c: "getCodeTable exampleProtocol (Utf8_decode (jslice 0 2 ?q)) = Inr (matterSpec 2 2 None 0)"
    unfolding d2 by (rule example_table_4A)
  have f: "fullSize ?sz ?q = Inr 8"
    by (simp add: fullSize_def d3 toInt_AB)
  have x: "exfilRaw 4 0 ?q = Inr [0, 0, 0]"
    by (simp add: exfilRaw_def decode_AAAA readInt_simps jslice_def)
  have "fromMatterQB64b exampleHards (Bytes ?q) exampleProtocol
     = (if int (length ?q) < 8 then Inl (ShortageError (NeedMore (nat (8 - int (length ?q)))))
      else (case exfilRaw (sz_hs ?sz + sz_ss ?sz) (sz_ls ?sz) (jsliceTo 8 ?q) of
              Inl e \<Rightarrow> Inl e
            | Inr raw \<Rightarrow>
                (if \<not> checkRawLength (sz_hs ?sz + sz_ss ?sz) (sz_ls ?sz) (jsliceTo 8 ?q) raw
                 then Inl ConversionError
                 else Inr (Utf8_decode (jslice 0 2 ?q), 8, raw))))"
    by (rule fromMatterQB64b_path [OF _ a _ c example_sizes f]) simp_all
  then show ?thesis
    by (simp add: jsliceTo_def x checkRawLength_def d2)
qed

lemma var_stream_cut3:
  "fromMatterQB64b exampleHards (Bytes [52, 65, 65]) exampleProtocol
     = Inl (ShortageError (NeedMore 1))"
proof -
  let ?q = "[52, 65, 65] :: byte list"
  let ?sz = "\<lparr>sz_hs = 2, sz_ss = 2, sz_fs = None, sz_ls = 0\<rparr>"
  have d1: "Utf8_decode (jslice 0 1 ?q) = [52]"
    by (simp add: jslice_def decode_ascii_list)
  have d2: "Utf8_decode (jslice 0 2 ?q) = [52, 65]"
    by (simp add: jslice_def decode_ascii_list)
  have d3: "Utf8_decode (jslice 2 4 ?q) = [65]"
    by (simp add: jslice_def decode_ascii_list)
  have a: "MatterHards exampleHards (Utf8_decode (jslice 0 1 ?q)) = Some 2"
    unfolding d1 by (rule example_hard_4)
  have c: "getCodeTable exampleProtocol (Utf8_decode (jslice 0 2 ?q)) = Inr (matterSpec 2 2 None 0)"
    unfolding d2 by (rule example_table_4A)
  have f: "fullSize ?sz ?q = Inr 4"
    by (simp add: fullSize_def d3 toInt_A)
  have "fromMatterQB64b exampleHards (Bytes ?q) exampleProtocol
     = (if int (length ?q) < 4 then Inl (ShortageError (NeedMore (nat (4 - int (length ?q)))))
      else (case exfilRaw (sz_hs ?sz + sz_ss ?sz) (sz_ls ?sz) (jsliceTo 4 ?q) of
              Inl e \<Rightarrow> Inl e
            | Inr raw \<Rightarrow>
                (if \<not> checkRawLength (sz_hs ?sz + sz_ss ?sz) (sz_ls ?sz) (jsliceTo 4 ?q) raw
                 then Inl ConversionError
                 else Inr (Utf8_decode (jslice 0 2 ?q), 4, raw))))"
    by (rule fromMatterQB64b_path [OF _ a _ c example_sizes f]) simp_all
  then show ?thesis
    by simp
qed


text \<open>
  Claim C3, as stated, fails in two places. The stream \<open>4AABAAAA\<close> is a valid primitive of
  8 characters; cut after 3 characters it fails with \<open>Shortage\<close>, but the count is 1 and
  not the 5 characters that are missing, since the size is computed from the one size
  character that is left. Cut to nothing it fails with the \<open>Shortage\<close> for empty material,
  which carries no count.
\<close>

theorem shortage_count_counterexample:
  "fromMatterQB64b exampleHards (Str (js ''4AABAAAA'')) exampleProtocol = Inr (js ''4A'', 8, [0, 0, 0])
   \<and> fromMatterQB64b exampleHards (Bytes (take 3 (Utf8_encode (js ''4AABAAAA'')))) exampleProtocol
       = Inl (ShortageError (NeedMore 1))
   \<and> fromMatterQB64b exampleHards (Bytes (take 0 (Utf8_encode (js ''4AABAAAA'')))) exampleProtocol
       = Inl (ShortageError EmptyMaterial)
   \<and> (8 :: nat) - 3 \<noteq> 1"
proof -
  have j: "js ''4A'' = [52, 65]"
    by (simp add: js_def)
  have "fromMatterQB64b exampleHards (Str (js ''4AABAAAA'')) exampleProtocol
          = fromMatterQB64b exampleHards (Bytes (Utf8_encode (js ''4AABAAAA''))) exampleProtocol"
    by (simp add: fromMatterQB64b_def toBytes_def)
  then show ?thesis
    unfolding var_stream j
    by (simp add: var_stream_decoded var_stream_cut3 fromMatterQB64b_empty)
qed

text \<open>
  Claim C3, amended. For a non-empty input whose first character has the hard size \<open>h\<close>:
  with fewer than \<open>h\<close> bytes the extractor fails with \<open>Shortage\<close> and the count
  \<open>h - available\<close>; when the table entry of the hard code has sizes, the full size \<open>fs\<close> is
  computed from them and from the size characters present, and fewer than \<open>fs\<close> bytes are
  there, it fails with \<open>Shortage\<close> and the count \<open>fs - available\<close>. So a valid primitive of
  full size \<open>fs\<close> that is cut to \<open>k\<close> bytes fails with \<open>Shortage\<close> and the count \<open>fs - k\<close>
  when \<open>k\<close> is at least the hard size and, for a code without a fixed size, at least the
  code size; cut inside the hard code, the count is \<open>h - k\<close>.
\<close>

theorem shortage_determinism:
  assumes "q \<noteq> []" and "MatterHards H (Utf8_decode (jslice 0 1 q)) = Some h"
  shows "(length q < h \<longrightarrow>
            fromMatterQB64b H (Bytes q) p = Inl (ShortageError (NeedMore (h - length q))))
     \<and> (h \<le> length q \<and> getCodeTable p (Utf8_decode (jslice 0 h q)) = Inr table
          \<and> spec_sizes table = Some sz \<and> fullSize sz q = Inr fs' \<and> int (length q) < fs' \<longrightarrow>
            fromMatterQB64b H (Bytes q) p
              = Inl (ShortageError (NeedMore (nat (fs' - int (length q))))))
     \<and> (fromMatterQB64b H (Bytes q) p = Inr (hard, fs', raw) \<and> getCodeTable p hard = Inr table
          \<and> spec_sizes table = Some sz \<and> h \<le> k
          \<and> (sz_fs sz = None \<longrightarrow> sz_hs sz + sz_ss sz \<le> k) \<and> 0 < k \<and> int k < fs' \<longrightarrow>
            fromMatterQB64b H (Bytes (take k q)) p
              = Inl (ShortageError (NeedMore (nat (fs' - int k)))))
     \<and> (fromMatterQB64b H (Bytes q) p = Inr (hard, fs', raw) \<and> 0 < k \<and> k < h \<longrightarrow>
            fromMatterQB64b H (Bytes (take k q)) p = Inl (ShortageError (NeedMore (h - k))))"
proof (intro conjI impI)
  assume "length q < h"
  with assms show "fromMatterQB64b H (Bytes q) p = Inl (ShortageError (NeedMore (h - length q)))"
    by (rule fromMatterQB64b_short_hard)
next
  assume a: "h \<le> length q \<and> getCodeTable p (Utf8_decode (jslice 0 h q)) = Inr table
          \<and> spec_sizes table = Some sz \<and> fullSize sz q = Inr fs' \<and> int (length q) < fs'"
  then show "fromMatterQB64b H (Bytes q) p
              = Inl (ShortageError (NeedMore (nat (fs' - int (length q)))))"
    using fromMatterQB64b_path [OF assms, of p table sz fs'] by simp
next
  assume a: "fromMatterQB64b H (Bytes q) p = Inr (hard, fs', raw) \<and> getCodeTable p hard = Inr table
          \<and> spec_sizes table = Some sz \<and> h \<le> k
          \<and> (sz_fs sz = None \<longrightarrow> sz_hs sz + sz_ss sz \<le> k) \<and> 0 < k \<and> int k < fs'"
  then show "fromMatterQB64b H (Bytes (take k q)) p
              = Inl (ShortageError (NeedMore (nat (fs' - int k))))"
    using truncated_shortage [of H q p hard fs' raw h table sz k] assms(2) by simp
next
  assume a: "fromMatterQB64b H (Bytes q) p = Inr (hard, fs', raw) \<and> 0 < k \<and> k < h"
  then obtain h' where h': "MatterHards H (Utf8_decode (jslice 0 1 q)) = Some h'" "h' \<le> length q"
    using fromMatterQB64b_success by blast
  then have hl: "h \<le> length q" using assms(2) by simp
  have one: "1 \<le> k" using a by simp
  have l: "length (take k q) = k" using a hl by simp
  have ne: "take k q \<noteq> []" using a assms(1) by (cases q) simp_all
  have m: "MatterHards H (Utf8_decode (jslice 0 1 (take k q))) = Some h"
    unfolding jslice_take [OF one] by (rule assms(2))
  show "fromMatterQB64b H (Bytes (take k q)) p = Inl (ShortageError (NeedMore (h - k)))"
    using fromMatterQB64b_short_hard [OF ne m, of p] a l by simp
qed

theorem shortage_determinism_witness:
  "[52, 65, 65, 66, 65, 65, 65, 65 :: byte] \<noteq> []
   \<and> MatterHards exampleHards (Utf8_decode (jslice 0 1 [52, 65, 65, 66, 65, 65, 65, 65])) = Some 2
   \<and> fromMatterQB64b exampleHards (Bytes [52, 65, 65, 66, 65, 65, 65, 65]) exampleProtocol
       = Inr ([52, 65], 8, [0, 0, 0])
   \<and> fromMatterQB64b exampleHards (Bytes (take 5 [52, 65, 65, 66, 65, 65, 65, 65])) exampleProtocol
       = Inl (ShortageError (NeedMore 3))
   \<and> fromMatterQB64b exampleHards (Bytes (take 1 [52, 65, 65, 66, 65, 65, 65, 65])) exampleProtocol
       = Inl (ShortageError (NeedMore 1))"
proof -
  let ?q = "[52, 65, 65, 66, 65, 65, 65, 65] :: byte list"
  have ne: "?q \<noteq> []" by simp
  have d1: "Utf8_decode (jslice 0 1 ?q) = [52]"
    by (simp add: jslice_def decode_ascii_list)
  have a: "MatterHards exampleHards (Utf8_decode (jslice 0 1 ?q)) = Some 2"
    unfolding d1 by (rule example_hard_4)
  note t = shortage_determinism [OF ne a, of exampleProtocol "matterSpec 2 2 None 0"
      "\<lparr>sz_hs = 2, sz_ss = 2, sz_fs = None, sz_ls = 0\<rparr>" 8 "[52, 65]" "[0, 0, 0]"]
  have k5: "fromMatterQB64b exampleHards (Bytes (take 5 ?q)) exampleProtocol
       = Inl (ShortageError (NeedMore 3))"
    using t [of 5] var_stream_decoded example_table_4A example_sizes by simp
  have k1: "fromMatterQB64b exampleHards (Bytes (take 1 ?q)) exampleProtocol
       = Inl (ShortageError (NeedMore 1))"
    using t [of 1] var_stream_decoded by simp
  show ?thesis
    using a k5 k1 var_stream_decoded by simp
qed

lemma decode_AslashAA: "decodeBase64Url [65, 95, 65, 65] = Inr [3, 240, 0]"
proof -
  have "atob [65, 47, 65, 65] = Inr [3, 240, 0]"
    by (simp add: atob_def asciiWhitespace_def dropLastEq_def eqSign_def indexOf_b64std_values)
  then show ?thesis
    by (simp add: decodeBase64Url_def replaceAll_def)
qed

lemma decode_AAAB: "decodeBase64Url [65, 65, 65, 66] = Inr [0, 0, 1]"
proof -
  have "atob [65, 65, 65, 66] = Inr [0, 0, 1]"
    by (simp add: atob_def asciiWhitespace_def dropLastEq_def eqSign_def indexOf_b64std_values)
  then show ?thesis
    by (simp add: decodeBase64Url_def replaceAll_def)
qed

subsection \<open>Pad bits and lead bytes in the extractor\<close>

lemma decode_AQAB: "decodeBase64Url [65, 81, 65, 66] = Inr [1, 0, 1]"
proof -
  have q: "indexOf b64std 81 = Some 16"
    unfolding b64std_ranges by simp
  have "atob [65, 81, 65, 66] = Inr [1, 0, 1]"
    by (simp add: atob_def asciiWhitespace_def dropLastEq_def eqSign_def indexOf_b64std_values q)
  then show ?thesis
    by (simp add: decodeBase64Url_def replaceAll_def)
qed

lemma example_pad_table:
  "getCodeTable examplePadProtocol [69] = Inr (matterSpec 1 0 (Some 4) 0)"
  by (simp add: getCodeTable_def examplePadProtocol_def examplePadContext_def js_def)

lemma example_hard_E: "MatterHards exampleHards [69] = Some 1"
  by (simp add: exampleHards_def exampleMatterHards_def)

lemma example_table_lead:
  "getCodeTable exampleProtocol [50, 95, 95, 95] = Inr (matterSpec 4 0 (Some 8) 1)"
  by (simp add: getCodeTable_def exampleProtocol_def exampleContext_def js_def)

lemma example_hard_2: "MatterHards exampleHards [50] = Some 4"
  by (simp add: exampleHards_def exampleMatterHards_def)

text \<open>
  Claim C4. The extractor \<^verbatim>\<open>fromMatterQB64b\<close>, on an input that holds the whole primitive
  (a hard code of the table, a table entry with its sizes, the full size \<open>fs\<close> within the
  input), with \<open>cs\<close> the code size and \<open>ps = cs mod 4\<close>. When \<open>ps > 0\<close> it puts \<open>ps\<close>
  characters \<open>A\<close> (code 65) before the material after the code and decodes; a failure of
  the decoding is the failure of the extractor; otherwise the integer of the first \<open>ps\<close>
  decoded bytes is a finite number, the extractor fails with the error for non-zero pad
  bits exactly when it is not zero, and else goes on with the bytes after them. When
  \<open>ps = 0\<close> it decodes the material after the code as it is; it fails with the error for
  non-zero lead bytes exactly when the integer of the first \<open>ls\<close> bytes is not zero, and
  else goes on with the bytes after them. Going on is the check of the length of the raw
  bytes and the return of the code, the full size and the raw bytes.
\<close>

theorem fromMatterQB64b_validation:
  assumes "q \<noteq> []" and "MatterHards H (Utf8_decode (jslice 0 1 q)) = Some h"
    and "h \<le> length q"
    and "getCodeTable p (Utf8_decode (jslice 0 h q)) = Inr table"
    and "spec_sizes table = Some sz" and "fullSize sz q = Inr fs'"
    and "fs' \<le> int (length q)"
  shows
    "let cs = sz_hs sz + sz_ss sz; ps = cs mod 4; ls = sz_ls sz; qb64b = jsliceTo fs' q;
         finish = (\<lambda>raw. if checkRawLength cs ls qb64b raw
                          then Inr (Utf8_decode (jslice 0 h q), fs', raw)
                          else Inl ConversionError)
     in (0 < ps \<longrightarrow>
           (case decodeBase64Url (replicate ps 65 @ drop cs qb64b) of
              Inl e \<Rightarrow> fromMatterQB64b H (Bytes q) p = Inl e
            | Inr paw \<Rightarrow>
                (\<exists>n. readInt (take ps paw) = Finite n
                   \<and> (n \<noteq> 0 \<longrightarrow>
                        fromMatterQB64b H (Bytes q) p = Inl (NonZeroPadBits (int n)))
                   \<and> (n = 0 \<longrightarrow>
                        fromMatterQB64b H (Bytes q) p = finish (drop ps paw)))))
        \<and> (ps = 0 \<longrightarrow>
           (case decodeBase64Url (drop cs qb64b) of
              Inl e \<Rightarrow> fromMatterQB64b H (Bytes q) p = Inl e
            | Inr paw \<Rightarrow>
                (readInt (take ls paw) \<noteq> Finite 0 \<longrightarrow>
                   fromMatterQB64b H (Bytes q) p = Inl (NonZeroLeadBytes (readInt (take ls paw))))
                \<and> (readInt (take ls paw) = Finite 0 \<longrightarrow>
                   fromMatterQB64b H (Bytes q) p = finish (drop ls paw))))"
proof -
  define cs where "cs = sz_hs sz + sz_ss sz"
  define qb64b where "qb64b = jsliceTo fs' q"
  define finish where "finish = (\<lambda>raw. if checkRawLength cs (sz_ls sz) qb64b raw
                          then Inr (Utf8_decode (jslice 0 h q), fs', raw)
                          else Inl ConversionError)"
  have nl: "\<not> int (length q) < fs'"
    using assms(7) by simp
  have path: "fromMatterQB64b H (Bytes q) p =
      (case exfilRaw cs (sz_ls sz) qb64b of Inl e \<Rightarrow> Inl e | Inr raw \<Rightarrow> finish raw)"
    unfolding fromMatterQB64b_path [OF assms(1-6)] cs_def qb64b_def finish_def
    using nl by (simp split: sum.splits)
  note ck = exfilRaw_checks [of cs "sz_ls sz" qb64b]
  have a: "case decodeBase64Url (replicate (cs mod 4) 65 @ drop cs qb64b) of
              Inl e \<Rightarrow> fromMatterQB64b H (Bytes q) p = Inl e
            | Inr paw \<Rightarrow>
                (\<exists>n. readInt (take (cs mod 4) paw) = Finite n
                   \<and> (n \<noteq> 0 \<longrightarrow>
                        fromMatterQB64b H (Bytes q) p = Inl (NonZeroPadBits (int n)))
                   \<and> (n = 0 \<longrightarrow>
                        fromMatterQB64b H (Bytes q) p = finish (drop (cs mod 4) paw)))"
    if ps: "0 < cs mod 4"
  proof (cases "decodeBase64Url (replicate (cs mod 4) 65 @ drop cs qb64b)")
    case (Inl e)
    then show ?thesis
      using ck ps by (simp add: path)
  next
    case (Inr paw)
    then show ?thesis
      using ck ps by (auto simp: path)
  qed
  have b: "case decodeBase64Url (drop cs qb64b) of
              Inl e \<Rightarrow> fromMatterQB64b H (Bytes q) p = Inl e
            | Inr paw \<Rightarrow>
                (readInt (take (sz_ls sz) paw) \<noteq> Finite 0 \<longrightarrow>
                   fromMatterQB64b H (Bytes q) p
                     = Inl (NonZeroLeadBytes (readInt (take (sz_ls sz) paw))))
                \<and> (readInt (take (sz_ls sz) paw) = Finite 0 \<longrightarrow>
                   fromMatterQB64b H (Bytes q) p = finish (drop (sz_ls sz) paw))"
    if ps: "cs mod 4 = 0"
  proof (cases "decodeBase64Url (drop cs qb64b)")
    case (Inl e)
    then show ?thesis
      using ck ps by (simp add: path)
  next
    case (Inr paw)
    then show ?thesis
      using ck ps by (auto simp: path)
  qed
  show ?thesis
    unfolding Let_def using a b by (simp only: cs_def qb64b_def finish_def) blast
qed


theorem fromMatterQB64b_validation_witness:
  "MatterHards exampleHards (Utf8_decode (jslice 0 1 [69, 95, 65, 65])) = Some 1
   \<and> getCodeTable examplePadProtocol (Utf8_decode (jslice 0 1 [69, 95, 65, 65]))
       = Inr (matterSpec 1 0 (Some 4) 0)
   \<and> fullSize \<lparr>sz_hs = 1, sz_ss = 0, sz_fs = Some 4, sz_ls = 0\<rparr> [69, 95, 65, 65] = Inr 4
   \<and> decodeBase64Url (replicate 1 65 @ drop 1 [69, 95, 65, 65]) = Inr [3, 240, 0]
   \<and> fromMatterQB64b exampleHards (Bytes [69, 95, 65, 65]) examplePadProtocol
       = Inl (NonZeroPadBits 3)
   \<and> MatterHards exampleHards (Utf8_decode (jslice 0 1 [50, 95, 95, 95, 65, 65, 65, 66])) = Some 4
   \<and> getCodeTable exampleProtocol (Utf8_decode (jslice 0 4 [50, 95, 95, 95, 65, 65, 65, 66]))
       = Inr (matterSpec 4 0 (Some 8) 1)
   \<and> decodeBase64Url (drop 4 [50, 95, 95, 95, 65, 65, 65, 66]) = Inr [0, 0, 1]
   \<and> fromMatterQB64b exampleHards (Bytes [50, 95, 95, 95, 65, 65, 65, 66]) exampleProtocol
       = Inr ([50, 95, 95, 95], 8, [0, 1])
   \<and> decodeBase64Url (drop 4 [50, 95, 95, 95, 65, 81, 65, 66]) = Inr [1, 0, 1]
   \<and> fromMatterQB64b exampleHards (Bytes [50, 95, 95, 95, 65, 81, 65, 66]) exampleProtocol
       = Inl (NonZeroLeadBytes (Finite 1))"
proof -
  let ?e = "[69, 95, 65, 65] :: byte list"
  let ?z = "[50, 95, 95, 95, 65, 65, 65, 66] :: byte list"
  let ?n = "[50, 95, 95, 95, 65, 81, 65, 66] :: byte list"
  have de: "Utf8_decode (jslice 0 1 ?e) = [69]"
    by (simp add: jslice_def decode_ascii_list)
  have dz: "Utf8_decode (jslice 0 1 ?z) = [50]" "Utf8_decode (jslice 0 4 ?z) = [50, 95, 95, 95]"
    by (simp_all add: jslice_def decode_ascii_list)
  have dn: "Utf8_decode (jslice 0 1 ?n) = [50]" "Utf8_decode (jslice 0 4 ?n) = [50, 95, 95, 95]"
    by (simp_all add: jslice_def decode_ascii_list)
  have he: "MatterHards exampleHards (Utf8_decode (jslice 0 1 ?e)) = Some 1"
    unfolding de by (rule example_hard_E)
  have hz: "MatterHards exampleHards (Utf8_decode (jslice 0 1 ?z)) = Some 4"
    unfolding dz by (rule example_hard_2)
  have hn: "MatterHards exampleHards (Utf8_decode (jslice 0 1 ?n)) = Some 4"
    unfolding dn by (rule example_hard_2)
  have te: "getCodeTable examplePadProtocol (Utf8_decode (jslice 0 1 ?e))
              = Inr (matterSpec 1 0 (Some 4) 0)"
    unfolding de by (rule example_pad_table)
  have tz: "getCodeTable exampleProtocol (Utf8_decode (jslice 0 4 ?z))
              = Inr (matterSpec 4 0 (Some 8) 1)"
    unfolding dz by (rule example_table_lead)
  have tn: "getCodeTable exampleProtocol (Utf8_decode (jslice 0 4 ?n))
              = Inr (matterSpec 4 0 (Some 8) 1)"
    unfolding dn by (rule example_table_lead)
  have fe: "fullSize \<lparr>sz_hs = 1, sz_ss = 0, sz_fs = Some 4, sz_ls = 0\<rparr> ?e = Inr (int 4)"
    by (simp add: fullSize_def)
  have fz: "fullSize \<lparr>sz_hs = 4, sz_ss = 0, sz_fs = Some 8, sz_ls = 1\<rparr> ?z = Inr (int 8)"
    by (simp add: fullSize_def)
  have fn: "fullSize \<lparr>sz_hs = 4, sz_ss = 0, sz_fs = Some 8, sz_ls = 1\<rparr> ?n = Inr (int 8)"
    by (simp add: fullSize_def)
  have ce: "decodeBase64Url (replicate 1 65 @ drop 1 ?e) = Inr [3, 240, 0]"
    by (simp add: decode_AslashAA)
  have cz: "decodeBase64Url (drop 4 ?z) = Inr [0, 0, 1]"
    by (simp add: decode_AAAB)
  have cn: "decodeBase64Url (drop 4 ?n) = Inr [1, 0, 1]"
    by (simp add: decode_AQAB)
  have re: "fromMatterQB64b exampleHards (Bytes ?e) examplePadProtocol = Inl (NonZeroPadBits 3)"
    using fromMatterQB64b_validation [OF _ he _ te example_sizes fe] ce
    by (simp add: Let_def jsliceTo_def readInt_simps)
  have rz: "fromMatterQB64b exampleHards (Bytes ?z) exampleProtocol
              = Inr ([50, 95, 95, 95], 8, [0, 1])"
    using fromMatterQB64b_validation [OF _ hz _ tz example_sizes fz] cz dz
    by (simp add: Let_def jsliceTo_def readInt_simps checkRawLength_def)
  have rn: "fromMatterQB64b exampleHards (Bytes ?n) exampleProtocol
              = Inl (NonZeroLeadBytes (Finite 1))"
    using fromMatterQB64b_validation [OF _ hn _ tn example_sizes fn] cn
    by (simp add: Let_def jsliceTo_def readInt_simps)
  show ?thesis
    using he te fe ce re hz tz cz rz cn rn by simp
qed

subsection \<open>Groups and frames of the decoder\<close>


lemma pushGroup_loop_replicate:
  "pushGroup_loop n p v gs = replicate n \<lparr>g_protocol = p, g_value = v\<rparr> @ gs"
  by (induction n arbitrary: gs) (simp_all add: replicate_app_Cons_same)

lemma pushGroup_stack:
  "f_group (currentFrame (pushGroup c p v st))
     = replicate (rounds c) \<lparr>g_protocol = p, g_value = v\<rparr> @ f_group (currentFrame st)"
  by (simp add: pushGroup_def pushGroup_loop_replicate)

lemma popGroup_Cons:
  "f_group (currentFrame st) = g # gs \<Longrightarrow>
     popGroup st = (Some g, st\<lparr>currentFrame := (currentFrame st)\<lparr>f_group := gs\<rparr>\<rparr>)"
  by (simp add: popGroup_def)

lemma popGroup_Nil: "f_group (currentFrame st) = [] \<Longrightarrow> popGroup st = (None, st)"
  by (simp add: popGroup_def)

lemma popGroup_view:
  assumes "cursorView st = (a, e, getter, gps)" and "popGroup st = (grp, st2)"
  shows "cursorView st2 = (a, e, getter, tl gps)" and "groupProtocol P grp = viewProtocol P gps"
    and "nextFrames st2 = nextFrames st"
  using assms
  by (auto simp: cursorView_def popGroup_def groupProtocol_def viewProtocol_def
      split: list.splits option.splits)

lemma nextSlice_nonempty:
  assumes "sliceFrame (start st) (f_end (currentFrame st)) bytes \<noteq> []"
  shows "nextSlice st bytes = (sliceFrame (start st) (f_end (currentFrame st)) bytes, st)"
  using assms by (cases "nextFrames st") (simp_all add: nextSlice_def)

lemma table_updates:
  "isFrame p (d\<lparr>dc_serial := x, dc_version := y\<rparr>) = isFrame p d"
  "isGroup p (d\<lparr>dc_serial := x, dc_version := y\<rparr>) = isGroup p d"
  "hasContext p (d\<lparr>dc_serial := x, dc_version := y\<rparr>) = hasContext p d"
  "getContext p (d\<lparr>dc_serial := x, dc_version := y\<rparr>) = getContext p d"
proof -
  show "isFrame p (d\<lparr>dc_serial := x, dc_version := y\<rparr>) = isFrame p d"
    by (cases p) (simp_all add: isFrame_def)
  show "isGroup p (d\<lparr>dc_serial := x, dc_version := y\<rparr>) = isGroup p d"
    by (cases p) (simp_all add: isGroup_def)
  show "hasContext p (d\<lparr>dc_serial := x, dc_version := y\<rparr>) = hasContext p d"
    by (cases p) (simp_all add: hasContext_def isGroup_def)
  show "getContext p (d\<lparr>dc_serial := x, dc_version := y\<rparr>) = getContext p d"
    by (cases p) (simp_all add: getContext_def hasContext_def isGroup_def)
qed

lemma values_step_view:
  fixes gen :: "'v generator"
  assumes v: "cursorView (gen_state gen) = (a, e, getter, gps)"
    and ne: "sliceFrame a e bytes \<noteq> []"
    and gv: "callGetter H getter (viewProtocol P gps) (sliceFrame a e bytes) = Inr fv"
    and hd: "cv_header fv = DerivationCode d" and sel: "dc_selector d \<noteq> []"
  shows "\<exists>r gen'. values_step H hk P bytes gen = Yield r gen'
           \<and> cursorView (gen_state gen')
               = (if isFrame (viewProtocol P gps) d
                  then (a + length (dc_value d), Some (a + length (cv_value fv)), GetCesrValue, [])
                  else if isGroup (viewProtocol P gps) d
                  then (a + length (cv_value fv), e, getter,
                        replicate (rounds (dc_count d))
                          (if hasContext (viewProtocol P gps) d
                           then getContext (viewProtocol P gps) d else None) @ tl gps)
                  else (a + length (cv_value fv), e, getter, tl gps))"
proof -
  let ?st = "gen_state gen"
  have a: "start ?st = a" "f_end (currentFrame ?st) = e" "f_valueGetter (currentFrame ?st) = getter"
    using v by (simp_all add: cursorView_def)
  have ns: "nextSlice ?st bytes = (sliceFrame a e bytes, ?st)"
    using nextSlice_nonempty [of ?st bytes] ne a by simp
  obtain grp st2 where pg: "popGroup ?st = (grp, st2)"
    by (cases "popGroup ?st")
  note pv = popGroup_view [OF v pg]
  have v2: "start st2 = a" "f_end (currentFrame st2) = e" "f_valueGetter (currentFrame st2) = getter"
    "map g_protocol (f_group (currentFrame st2)) = tl gps"
    using pv(1) by (simp_all add: cursorView_def)
  have gp: "groupProtocol P grp = viewProtocol P gps"
    by (rule pv(2))
  show ?thesis
  proof (cases "isFrame (viewProtocol P gps) d")
    case True
    then show ?thesis
      using ns ne pg gv hd sel v2 gp
      by (simp add: values_step_def Let_def table_updates cursorView_def pushFrame_def)
  next
    case nf: False
    show ?thesis
    proof (cases "isGroup (viewProtocol P gps) d")
      case True
      then show ?thesis
        using nf ns ne pg gv hd sel v2 gp
        by (simp add: values_step_def Let_def table_updates cursorView_def pushGroup_def
            pushGroup_loop_replicate)
    next
      case False
      then show ?thesis
        using nf ns ne pg gv hd sel v2 gp
        by (simp add: values_step_def Let_def table_updates cursorView_def)
    qed
  qed
qed

text \<open>The values of the example protocol: a frame header, a group header, a leaf.\<close>

lemma getCesrValue_schema:
  assumes "Utf8_decode (jslice 0 8 sl) = selector" and "length selector = 8"
    and "c selector = Some table" and "codeSize table \<le> 8"
    and "mapCodeHeader table (jslice 0 (codeSize table) selector) = Inr code"
    and "getTotalLength table code = Inr (Some (int n))" and "n \<le> length sl"
  shows "getCesrValue (CesrSchemaProtocol t c) (Bytes sl)
           = Inr \<lparr>cv_header = DerivationCode code, cv_value = take n sl\<rparr>"
  using assms
  by (simp add: getCesrValue_def toBytes_def getSelectorSize_def getCodeTable_def jslice_def
      jsliceTo_def Let_def)

lemma selector_of_prefix:
  assumes "take 8 sl = pre" and "length pre = 8" and "\<forall>b\<in>set pre. unat b < 128"
  shows "Utf8_decode (jslice 0 8 sl) = map unat pre"
  using assms by (simp add: jslice_def Utf8_decode_ascii)

lemma toInt_digits: "Base64_toInt [65, 68] = Inr 3" "Base64_toInt [65, 72] = Inr 7"
  "Base64_toInt [65, 73] = Inr 8"
proof -
  have i: "indexOf BASE64 65 = Some 0" "indexOf BASE64 68 = Some 3" "indexOf BASE64 72 = Some 7"
    "indexOf BASE64 73 = Some 8"
    unfolding BASE64_ranges by simp_all
  show "Base64_toInt [65, 68] = Inr 3" "Base64_toInt [65, 72] = Inr 7"
    "Base64_toInt [65, 73] = Inr 8"
    by (simp_all add: Base64_toInt_def Base64_valueOf_def i)
qed

lemma example_group_header:
  "mapCodeHeader (counterSpec (Some (js ''*1''))) [45, 65, 65, 68] = Inr exampleGroupHeader"
  by (simp add: Let_def mapCodeHeader_def counterSpec_def codeSize_def jslice_def isFixedSize_def
      isVariableSize_def isVersion_def mapCount_def isCounter_def hasCount_def digitsToInt_def
      toInt_digits mapIndex_def isIndexer_def exampleGroupHeader_def js_def)

lemma example_leaf_header:
  "mapCodeHeader (matterSpec 4 0 (Some 8) 1) [50, 95, 95, 95] = Inr exampleLeafHeader"
  by (simp add: Let_def mapCodeHeader_def matterSpec_def codeSize_def jslice_def isFixedSize_def
      isVariableSize_def isVersion_def mapCount_def isCounter_def hasCount_def digitsToInt_def
      mapIndex_def isIndexer_def exampleLeafHeader_def js_def)

lemma example_frame_header:
  assumes "Base64_toInt [65, digit] = Inr n"
  shows "mapCodeHeader (counterSpec None) [45, 86, 65, digit] = Inr (exampleFrameHeader digit n)"
  using assms
  by (simp add: Let_def mapCodeHeader_def counterSpec_def codeSize_def jslice_def isFixedSize_def
      isVariableSize_def isVersion_def mapCount_def isCounter_def hasCount_def digitsToInt_def
      mapIndex_def isIndexer_def exampleFrameHeader_def js_def)


lemma take_of_take:
  "take 2 sel = [a, b] \<Longrightarrow> take 1 sel = [a]"
  "take 4 sel = [a, b, c, d] \<Longrightarrow> take 2 sel = [a, b]"
proof -
  have t: "take 1 sel = take 1 (take 2 sel)" "take 2 sel = take 2 (take 4 sel)"
    by simp_all
  show "take 2 sel = [a, b] \<Longrightarrow> take 1 sel = [a]"
    by (simp only: t(1)) simp
  show "take 4 sel = [a, b, c, d] \<Longrightarrow> take 2 sel = [a, b]"
    by (simp only: t(2)) simp
qed

lemma example_lookup:
  "take 2 sel = [45, 65] \<Longrightarrow> exampleContext sel = Some (counterSpec (Some (js ''*1'')))"
  "take 2 sel = [45, 86] \<Longrightarrow> exampleContext sel = Some (counterSpec None)"
  "take 4 sel = [50, 95, 95, 95] \<Longrightarrow> exampleContext sel = Some (matterSpec 4 0 (Some 8) 1)"
proof -
  show "exampleContext sel = Some (counterSpec (Some (js ''*1'')))" if h: "take 2 sel = [45, 65]"
  proof -
    have "take 4 sel \<noteq> [50, 95, 95, 95]"
      using take_of_take(2) [of sel 50 95 95 95] h by auto
    then show ?thesis
      using take_of_take(1) [OF h] h by (simp add: exampleContext_def js_def)
  qed
  show "exampleContext sel = Some (counterSpec None)" if h: "take 2 sel = [45, 86]"
  proof -
    have "take 4 sel \<noteq> [50, 95, 95, 95]"
      using take_of_take(2) [of sel 50 95 95 95] h by auto
    then show ?thesis
      using take_of_take(1) [OF h] h by (simp add: exampleContext_def js_def)
  qed
  show "exampleContext sel = Some (matterSpec 4 0 (Some 8) 1)" if h: "take 4 sel = [50, 95, 95, 95]"
    using take_of_take(1) [OF take_of_take(2) [OF h]] take_of_take(2) [OF h] h
    by (simp add: exampleContext_def js_def)
qed

lemma counterSpec_facts:
  "codeSize (counterSpec m) = 4"
  "getTotalLength (counterSpec m) code = Inr (Some (int 4))"
  by (simp_all add: counterSpec_def codeSize_def getTotalLength_def isFixedSize_def
      isVariableSize_def js_def)

lemma leafSpec_facts:
  "codeSize (matterSpec 4 0 (Some 8) l) = 4"
  "getTotalLength (matterSpec 4 0 (Some 8) l) code = Inr (Some (int 8))"
  by (simp_all add: matterSpec_def codeSize_def getTotalLength_def isFixedSize_def)

lemma selector_take:
  "8 \<le> length sl \<Longrightarrow> k \<le> 8 \<Longrightarrow> take k (map unat (take 8 sl)) = map unat (take k sl)"
  by (simp add: take_map min_def)

lemma selector_length:
  "8 \<le> length (sl :: byte list) \<Longrightarrow> length (map unat (take 8 sl)) = 8"
  by simp

lemma example_group_value:
  assumes p: "take 4 sl = [45, 65, 65, 68]" and l: "8 \<le> length sl"
    and a: "\<forall>b\<in>set (take 8 sl). unat b < 128"
  shows "getCesrValue exampleProtocol (Bytes sl)
           = Inr \<lparr>cv_header = DerivationCode exampleGroupHeader, cv_value = [45, 65, 65, 68]\<rparr>"
proof -
  let ?sel = "map unat (take 8 sl)"
  have s: "Utf8_decode (jslice 0 8 sl) = ?sel"
    using l a by (intro selector_of_prefix) simp_all
  have t4: "take 4 ?sel = [45, 65, 65, 68]"
    using p by (simp add: selector_take [OF l])
  have "take 2 ?sel = take 2 (take 4 ?sel)"
    by simp
  then have t2: "take 2 ?sel = [45, 65]"
    unfolding t4 by simp
  have h: "mapCodeHeader (counterSpec (Some (js ''*1'')))
             (jslice 0 (codeSize (counterSpec (Some (js ''*1'')))) ?sel) = Inr exampleGroupHeader"
  proof -
    have j: "jslice 0 4 ?sel = [45, 65, 65, 68]"
      using t4 by (simp add: jslice_def)
    show ?thesis
      unfolding counterSpec_facts j by (rule example_group_header)
  qed
  have "getCesrValue (CesrSchemaProtocol (\<lambda>names. exampleContext) exampleContext) (Bytes sl)
          = Inr \<lparr>cv_header = DerivationCode exampleGroupHeader, cv_value = take 4 sl\<rparr>"
    using l by (intro getCesrValue_schema [where c = exampleContext, OF s selector_length [OF l] example_lookup(1) [OF t2] _ h counterSpec_facts(2)])
      (simp_all add: counterSpec_facts)
  then show ?thesis
    by (simp add: exampleProtocol_def p)
qed

lemma example_leaf_value:
  assumes p: "take 8 sl = [50, 95, 95, 95, 65, 65, 65, 66]"
  shows "getCesrValue exampleProtocol (Bytes sl)
           = Inr \<lparr>cv_header = DerivationCode exampleLeafHeader,
                  cv_value = [50, 95, 95, 95, 65, 65, 65, 66]\<rparr>"
proof -
  let ?sel = "map unat (take 8 sl)"
  have "length (take 8 sl) = 8"
    unfolding p by simp
  then have l: "8 \<le> length sl"
    by simp
  have s: "Utf8_decode (jslice 0 8 sl) = ?sel"
    using l by (intro selector_of_prefix) (simp_all add: p)
  have t4: "take 4 ?sel = [50, 95, 95, 95]"
    by (simp add: p)
  have h: "mapCodeHeader (matterSpec 4 0 (Some 8) 1)
             (jslice 0 (codeSize (matterSpec 4 0 (Some 8) 1)) ?sel) = Inr exampleLeafHeader"
  proof -
    have j: "jslice 0 4 ?sel = [50, 95, 95, 95]"
      using t4 by (simp add: jslice_def)
    show ?thesis
      unfolding leafSpec_facts j by (rule example_leaf_header)
  qed
  have "getCesrValue (CesrSchemaProtocol (\<lambda>names. exampleContext) exampleContext) (Bytes sl)
          = Inr \<lparr>cv_header = DerivationCode exampleLeafHeader, cv_value = take 8 sl\<rparr>"
    using l by (intro getCesrValue_schema [where c = exampleContext, OF s selector_length [OF l] example_lookup(3) [OF t4] _ h leafSpec_facts(2)])
      (simp_all add: leafSpec_facts)
  then show ?thesis
    by (simp add: exampleProtocol_def p)
qed

lemma example_frame_value:
  assumes p: "take 4 sl = [45, 86, 65, dg]" and n: "Base64_toInt [65, unat dg] = Inr (int n)"
    and l: "8 \<le> length sl" and a: "\<forall>b\<in>set (take 8 sl). unat b < 128"
    and m: "n * 4 + 4 \<le> length sl"
  shows "getCesrFrame exampleHards exampleProtocol (Bytes sl)
           = Inr \<lparr>cv_header = DerivationCode (exampleFrameHeader (unat dg) (int n)),
                  cv_value = take (n * 4 + 4) sl\<rparr>"
proof -
  let ?sel = "map unat (take 8 sl)"
  let ?d = "exampleFrameHeader (unat dg) (int n)"
  have s: "Utf8_decode (jslice 0 8 sl) = ?sel"
    using l a by (intro selector_of_prefix) simp_all
  have t4: "take 4 ?sel = [45, 86, 65, unat dg]"
    using p by (simp add: selector_take [OF l])
  have "take 2 ?sel = take 2 (take 4 ?sel)"
    by simp
  then have t2: "take 2 ?sel = [45, 86]"
    unfolding t4 by simp
  have h: "mapCodeHeader (counterSpec None) (jslice 0 (codeSize (counterSpec None)) ?sel) = Inr ?d"
  proof -
    have j: "jslice 0 4 ?sel = [45, 86, 65, unat dg]"
      using t4 by (simp add: jslice_def)
    show ?thesis
      unfolding counterSpec_facts j by (rule example_frame_header [OF n])
  qed
  have "getCesrValue (CesrSchemaProtocol (\<lambda>names. exampleContext) exampleContext) (Bytes sl)
          = Inr \<lparr>cv_header = DerivationCode ?d, cv_value = take 4 sl\<rparr>"
    using l by (intro getCesrValue_schema [where c = exampleContext, OF s selector_length [OF l] example_lookup(2) [OF t2] _ h counterSpec_facts(2)])
      (simp_all add: counterSpec_facts)
  then have v: "getCesrValue exampleProtocol (Bytes sl)
          = Inr \<lparr>cv_header = DerivationCode ?d, cv_value = take 4 sl\<rparr>"
    by (simp add: exampleProtocol_def)
  obtain rest where sl: "sl = 45 # rest"
    using p l by (cases sl) auto
  have tr: "tritetOf sl = 1"
    unfolding sl by (simp add: tritetOf_def drop_bit_eq_div)
  have f: "dc_selector ?d = js ''-V''" "dc_selector ?d \<noteq> js ''-I''" "dc_count ?d = Some (int n)"
    "length (dc_value ?d) = 4"
    by (simp_all add: exampleFrameHeader_def js_def)
  have "getTextFrame exampleHards exampleProtocol sl
          = Inr \<lparr>cv_header = DerivationCode ?d, cv_value = take (n * 4 + 4) sl\<rparr>"
    using m by (simp add: getTextFrame_def v f getAttachedMaterialQuadlets_def jsliceTo_def
        nat_add_distrib nat_mult_distrib js_def)
  then show ?thesis
    by (simp add: getCesrFrame_def toBytes_def tr CtB64_def)
qed

text \<open>Rounds of the decoder on the values of the example protocol.\<close>

lemma example_kinds:
  "isFrame exampleProtocol (exampleFrameHeader digit n)"
  "\<not> isFrame exampleProtocol exampleGroupHeader"
  "isGroup exampleProtocol exampleGroupHeader"
  "\<not> hasContext exampleProtocol exampleGroupHeader"
  "\<not> isFrame exampleProtocol exampleLeafHeader"
  "\<not> isGroup exampleProtocol exampleLeafHeader"
  by (simp_all add: isFrame_def isGroup_def hasContext_def exampleProtocol_def
      exampleFrameHeader_def exampleGroupHeader_def exampleLeafHeader_def counterSpec_def
      matterSpec_def isCounter_def hasCount_def js_def)

lemma viewProtocol_plain:
  "gps = [] \<or> hd gps = None \<Longrightarrow> viewProtocol P gps = P"
  by (cases gps) (auto simp: viewProtocol_def split: option.splits)

lemma example_step_frame:
  fixes gen :: "'v generator"
  assumes v: "cursorView (gen_state gen) = (a, e, GetCesrFrame, gps)"
    and pl: "gps = [] \<or> hd gps = None"
    and p: "take 4 (sliceFrame a e bytes) = [45, 86, 65, dg]"
    and n: "Base64_toInt [65, unat dg] = Inr (int n)"
    and l: "n * 4 + 4 \<le> length (sliceFrame a e bytes)" "8 \<le> length (sliceFrame a e bytes)"
    and asc: "\<forall>b\<in>set (take 8 (sliceFrame a e bytes)). unat b < 128"
  shows "\<exists>r gen'. values_step exampleHards hk exampleProtocol bytes gen = Yield r gen'
           \<and> cursorView (gen_state gen') = (a + 4, Some (a + (n * 4 + 4)), GetCesrValue, [])"
proof -
  let ?sl = "sliceFrame a e bytes"
  let ?fv = "\<lparr>cv_header = DerivationCode (exampleFrameHeader (unat dg) (int n)),
              cv_value = take (n * 4 + 4) ?sl\<rparr>"
  have ne: "?sl \<noteq> []"
    using l(2) by auto
  have gv: "callGetter exampleHards GetCesrFrame (viewProtocol exampleProtocol gps) ?sl = Inr ?fv"
    unfolding viewProtocol_plain [OF pl] using example_frame_value [OF p n l(2) asc l(1)]
    by (simp add: callGetter_def)
  have len: "length (dc_value (exampleFrameHeader (unat dg) (int n))) = 4"
    "length (cv_value ?fv) = n * 4 + 4"
    using l(1) by (simp_all add: exampleFrameHeader_def)
  have k: "isFrame (viewProtocol exampleProtocol gps) (exampleFrameHeader (unat dg) (int n))"
    unfolding viewProtocol_plain [OF pl] by (rule example_kinds)
  have h: "cv_header ?fv = DerivationCode (exampleFrameHeader (unat dg) (int n))"
    "dc_selector (exampleFrameHeader (unat dg) (int n)) \<noteq> []"
    by (simp_all add: exampleFrameHeader_def)
  show ?thesis
    using values_step_view [OF v ne gv h, of hk] unfolding len if_P [OF k] .
qed

lemma example_step_group:
  fixes gen :: "'v generator"
  assumes v: "cursorView (gen_state gen) = (a, e, GetCesrValue, gps)"
    and pl: "gps = [] \<or> hd gps = None"
    and p: "take 4 (sliceFrame a e bytes) = [45, 65, 65, 68]"
    and l: "8 \<le> length (sliceFrame a e bytes)"
    and asc: "\<forall>b\<in>set (take 8 (sliceFrame a e bytes)). unat b < 128"
  shows "\<exists>r gen'. values_step exampleHards hk exampleProtocol bytes gen = Yield r gen'
           \<and> cursorView (gen_state gen')
               = (a + 4, e, GetCesrValue, None # None # None # tl gps)"
proof -
  let ?sl = "sliceFrame a e bytes"
  let ?fv = "\<lparr>cv_header = DerivationCode exampleGroupHeader, cv_value = [45, 65, 65, 68]\<rparr>"
  have ne: "?sl \<noteq> []"
    using l by auto
  have gv: "callGetter exampleHards GetCesrValue (viewProtocol exampleProtocol gps) ?sl = Inr ?fv"
    unfolding viewProtocol_plain [OF pl] using example_group_value [OF p l asc]
    by (simp add: callGetter_def)
  have r: "replicate (rounds (dc_count exampleGroupHeader)) (None :: protocol option)
             = [None, None, None]"
    by (simp add: exampleGroupHeader_def rounds_def numeral_3_eq_3)
  have len: "length (cv_value ?fv) = 4"
    by simp
  have k: "\<not> isFrame (viewProtocol exampleProtocol gps) exampleGroupHeader"
    "isGroup (viewProtocol exampleProtocol gps) exampleGroupHeader"
    "\<not> hasContext (viewProtocol exampleProtocol gps) exampleGroupHeader"
    unfolding viewProtocol_plain [OF pl] by (rule example_kinds)+
  have h: "cv_header ?fv = DerivationCode exampleGroupHeader"
    "dc_selector exampleGroupHeader \<noteq> []"
    by (simp_all add: exampleGroupHeader_def)
  show ?thesis
    using values_step_view [OF v ne gv h, of hk]
    unfolding len if_not_P [OF k(1)] if_P [OF k(2)] if_not_P [OF k(3)] r by simp
qed

lemma example_step_leaf:
  fixes gen :: "'v generator"
  assumes v: "cursorView (gen_state gen) = (a, e, GetCesrValue, gps)"
    and pl: "gps = [] \<or> hd gps = None"
    and p: "take 8 (sliceFrame a e bytes) = [50, 95, 95, 95, 65, 65, 65, 66]"
  shows "\<exists>r gen'. values_step exampleHards hk exampleProtocol bytes gen = Yield r gen'
           \<and> cursorView (gen_state gen') = (a + 8, e, GetCesrValue, tl gps)"
proof -
  let ?sl = "sliceFrame a e bytes"
  let ?fv = "\<lparr>cv_header = DerivationCode exampleLeafHeader,
              cv_value = [50, 95, 95, 95, 65, 65, 65, 66]\<rparr>"
  have ne: "?sl \<noteq> []"
    using p by auto
  have gv: "callGetter exampleHards GetCesrValue (viewProtocol exampleProtocol gps) ?sl = Inr ?fv"
    unfolding viewProtocol_plain [OF pl] using example_leaf_value [OF p]
    by (simp add: callGetter_def)
  have len: "length (cv_value ?fv) = 8"
    by simp
  have k: "\<not> isFrame (viewProtocol exampleProtocol gps) exampleLeafHeader"
    "\<not> isGroup (viewProtocol exampleProtocol gps) exampleLeafHeader"
    unfolding viewProtocol_plain [OF pl] by (rule example_kinds)+
  have h: "cv_header ?fv = DerivationCode exampleLeafHeader"
    "dc_selector exampleLeafHeader \<noteq> []"
    by (simp_all add: exampleLeafHeader_def)
  show ?thesis
    using values_step_view [OF v ne gv h, of hk]
    unfolding len if_not_P [OF k(1)] if_not_P [OF k(2)] .
qed

lemma values_after_Yield:
  "values_step H hk P bytes gen = Yield r gen' \<Longrightarrow>
     values_after (Suc n) H hk P bytes gen = values_after n H hk P bytes gen'"
  by simp

lemma groupDepth_view:
  "cursorView (gen_state gen) = (a, e, getter, gps) \<Longrightarrow> groupDepth (Some gen) = Some (length gps)"
  by (auto simp: groupDepth_def cursorView_def)

lemma newGenerator_view:
  "cursorView (gen_state (newGenerator (newDecoderState root))) = (0, None, GetCesrFrame, [])"
  by (simp add: newGenerator_def newDecoderState_def cursorView_def)

lemma scenarioC_bytes:
  "scenarioC_stream
     = [45, 86, 65, 72, 45, 65, 65, 68, 50, 95, 95, 95, 65, 65, 65, 66,
        50, 95, 95, 95, 65, 65, 65, 66, 50, 95, 95, 95, 65, 65, 65, 66]"
proof -
  have "\<forall>c\<in>set (js ''-VAH-AAD2___AAAB2___AAAB2___AAAB''). c < 128"
    by (simp add: js_def)
  then show ?thesis
    unfolding scenarioC_stream_def by (simp add: Utf8_encode_ascii) (simp add: js_def)
qed

lemma nestedGroups_bytes:
  "nestedGroups_stream
     = [45, 86, 65, 73, 45, 65, 65, 68, 45, 65, 65, 68, 50, 95, 95, 95, 65, 65, 65, 66,
        50, 95, 95, 95, 65, 65, 65, 66, 50, 95, 95, 95, 65, 65, 65, 66]"
proof -
  have "\<forall>c\<in>set (js ''-VAI-AAD-AAD2___AAAB2___AAAB2___AAAB''). c < 128"
    by (simp add: js_def)
  then show ?thesis
    unfolding nestedGroups_stream_def by (simp add: Utf8_encode_ascii) (simp add: js_def)
qed

lemma nestedGroups_run:
  fixes hk :: "'v hooks" and root :: 'v
  defines "g0 \<equiv> newGenerator (newDecoderState root)"
  shows "\<exists>g3 g6. values_after 3 exampleHards hk exampleProtocol nestedGroups_stream g0 = Some g3
           \<and> values_after 6 exampleHards hk exampleProtocol nestedGroups_stream g0 = Some g6
           \<and> cursorView (gen_state g3) = (12, Some 36, GetCesrValue, [None, None, None, None, None])
           \<and> cursorView (gen_state g6) = (36, Some 36, GetCesrValue, [None, None])"
proof -
  let ?step = "values_step exampleHards hk exampleProtocol nestedGroups_stream"
  let ?after = "\<lambda>n. values_after n exampleHards hk exampleProtocol nestedGroups_stream"
  note b = nestedGroups_bytes sliceFrame_def jslice_def
  have v0: "cursorView (gen_state g0) = (0, None, GetCesrFrame, [])"
    unfolding g0_def by (rule newGenerator_view)
  obtain r1 g1 where s1: "?step g0 = Yield r1 g1"
    and v1: "cursorView (gen_state g1) = (4, Some 36, GetCesrValue, [])"
    using example_step_frame [OF v0, of nestedGroups_stream 73 8 hk]
    by (auto simp: b toInt_digits)
  obtain r2 g2 where s2: "?step g1 = Yield r2 g2"
    and v2: "cursorView (gen_state g2) = (8, Some 36, GetCesrValue, [None, None, None])"
    using example_step_group [OF v1, of nestedGroups_stream hk]
    by (auto simp: b)
  obtain r3 g3 where s3: "?step g2 = Yield r3 g3"
    and v3: "cursorView (gen_state g3) = (12, Some 36, GetCesrValue, [None, None, None, None, None])"
    using example_step_group [OF v2, of nestedGroups_stream hk]
    by (auto simp: b)
  obtain r4 g4 where s4: "?step g3 = Yield r4 g4"
    and v4: "cursorView (gen_state g4) = (20, Some 36, GetCesrValue, [None, None, None, None])"
    using example_step_leaf [OF v3, of nestedGroups_stream hk]
    by (auto simp: b)
  obtain r5 g5 where s5: "?step g4 = Yield r5 g5"
    and v5: "cursorView (gen_state g5) = (28, Some 36, GetCesrValue, [None, None, None])"
    using example_step_leaf [OF v4, of nestedGroups_stream hk]
    by (auto simp: b)
  obtain r6 g6 where s6: "?step g5 = Yield r6 g6"
    and v6: "cursorView (gen_state g6) = (36, Some 36, GetCesrValue, [None, None])"
    using example_step_leaf [OF v5, of nestedGroups_stream hk]
    by (auto simp: b)
  have a3: "?after 3 g0 = Some g3"
    using s1 s2 s3 by (simp add: numeral_3_eq_3)
  have "?after 6 g0 = ?after 3 g3"
    using s1 s2 s3 by (simp add: eval_nat_numeral)
  also have "\<dots> = Some g6"
    using s4 s5 s6 by (simp add: numeral_3_eq_3)
  finally show ?thesis
    using a3 v3 v6 by blast
qed

lemma depth_pop:
  "groupDepth (Some gen) = Some (Suc k) \<Longrightarrow> fst (popGroup (gen_state gen)) \<noteq> None"
  "groupDepth (Some gen) = Some 0 \<Longrightarrow> fst (popGroup (gen_state gen)) = None"
  by (auto simp: groupDepth_def popGroup_def split: list.splits)

text \<open>
  Claim C9, as stated, fails when a marker is pending at the group header. In the stream
  \<^verbatim>\<open>-VAI-AAD-AAD2___AAAB2___AAAB2___AAAB\<close> the third value is a group header with count 3,
  decoded while three markers of the header before it are pending: one of them is popped,
  three are pushed, five are pending. After the three values that follow (the sixth value of
  the stream) two markers are left, and \<^verbatim>\<open>popGroup\<close> returns a marker.
\<close>

theorem nested_group_counterexample:
  "groupDepth (values_after 3 exampleHards defaultHooks exampleProtocol nestedGroups_stream
                 (newGenerator (newDecoderState exampleRoot))) = Some 5
   \<and> groupDepth (values_after 6 exampleHards defaultHooks exampleProtocol nestedGroups_stream
                   (newGenerator (newDecoderState exampleRoot))) = Some 2
   \<and> map_option (\<lambda>g. fst (popGroup (gen_state g)) = None)
        (values_after 6 exampleHards defaultHooks exampleProtocol nestedGroups_stream
           (newGenerator (newDecoderState exampleRoot))) = Some False"
proof -
  obtain g3 g6 where
    a: "values_after 3 exampleHards defaultHooks exampleProtocol nestedGroups_stream
          (newGenerator (newDecoderState exampleRoot)) = Some g3"
      "values_after 6 exampleHards defaultHooks exampleProtocol nestedGroups_stream
          (newGenerator (newDecoderState exampleRoot)) = Some g6"
    and v: "cursorView (gen_state g3) = (12, Some 36, GetCesrValue, [None, None, None, None, None])"
      "cursorView (gen_state g6) = (36, Some 36, GetCesrValue, [None, None])"
    using nestedGroups_run [of defaultHooks exampleRoot] by blast
  have d: "groupDepth (Some g3) = Some 5" "groupDepth (Some g6) = Some (Suc 1)"
    using groupDepth_view [OF v(1)] groupDepth_view [OF v(2)] by simp_all
  show ?thesis
    unfolding a using d depth_pop(1) [OF d(2)] by simp
qed

text \<open>
  Claim C9, amended. \<^verbatim>\<open>pushGroup(count, context)\<close> puts exactly \<open>count\<close> identical markers on
  the group stack of the active frame, above the markers already there (none when the count
  is undefined or not positive); \<^verbatim>\<open>popGroup\<close> removes and returns the innermost marker, and
  returns none, leaving the state as it is, when the stack is empty. A round of the decoder
  that decodes a value which is not a frame header pops one marker if one is pending, and,
  when the value is a group header, pushes as many markers as its count: with \<open>k\<close> markers
  pending before the round, \<open>k - 1\<close> (or none, for \<open>k = 0\<close>) are pending after a leaf, and the
  count more after a group header. So after a group header of count 3 decoded with at most
  one marker pending, exactly three are pending; each leaf value decoded next in that frame
  consumes one; after the third, \<^verbatim>\<open>popGroup\<close> returns none.
\<close>

theorem group_stack_discipline:
  fixes st :: "'v DecoderState" and gen :: "'v generator"
  shows
    "f_group (currentFrame (pushGroup c q v st))
       = replicate (rounds c) \<lparr>g_protocol = q, g_value = v\<rparr> @ f_group (currentFrame st)
     \<and> popGroup st
         = (case f_group (currentFrame st) of
              [] \<Rightarrow> (None, st)
            | g # gs \<Rightarrow> (Some g, st\<lparr>currentFrame := (currentFrame st)\<lparr>f_group := gs\<rparr>\<rparr>))
     \<and> (cursorView (gen_state gen) = (a, e, getter, gps)
          \<and> sliceFrame a e bytes \<noteq> []
          \<and> callGetter H getter (viewProtocol P gps) (sliceFrame a e bytes) = Inr fv
          \<and> cv_header fv = DerivationCode d \<and> dc_selector d \<noteq> []
          \<and> \<not> isFrame (viewProtocol P gps) d
        \<longrightarrow> (\<exists>r gen'. values_step H hk P bytes gen = Yield r gen'
               \<and> cursorView (gen_state gen')
                   = (a + length (cv_value fv), e, getter,
                      (if isGroup (viewProtocol P gps) d
                       then replicate (rounds (dc_count d))
                              (if hasContext (viewProtocol P gps) d
                               then getContext (viewProtocol P gps) d else None)
                       else []) @ tl gps)
               \<and> length (f_group (currentFrame (gen_state gen')))
                   = (if isGroup (viewProtocol P gps) d then rounds (dc_count d) else 0)
                       + (length gps - 1)))"
proof (intro conjI impI)
  show "f_group (currentFrame (pushGroup c q v st))
          = replicate (rounds c) \<lparr>g_protocol = q, g_value = v\<rparr> @ f_group (currentFrame st)"
    by (rule pushGroup_stack)
  show "popGroup st
          = (case f_group (currentFrame st) of
               [] \<Rightarrow> (None, st)
             | g # gs \<Rightarrow> (Some g, st\<lparr>currentFrame := (currentFrame st)\<lparr>f_group := gs\<rparr>\<rparr>))"
    by (cases "f_group (currentFrame st)") (simp_all add: popGroup_Nil popGroup_Cons)
next
  let ?p = "viewProtocol P gps"
  let ?gps' = "(if isGroup ?p d
                then replicate (rounds (dc_count d))
                       (if hasContext ?p d then getContext ?p d else None)
                else []) @ tl gps"
  assume h: "cursorView (gen_state gen) = (a, e, getter, gps)
          \<and> sliceFrame a e bytes \<noteq> []
          \<and> callGetter H getter ?p (sliceFrame a e bytes) = Inr fv
          \<and> cv_header fv = DerivationCode d \<and> dc_selector d \<noteq> []
          \<and> \<not> isFrame ?p d"
  then have "\<exists>r gen'. values_step H hk P bytes gen = Yield r gen'
           \<and> cursorView (gen_state gen') = (a + length (cv_value fv), e, getter, ?gps')"
    using values_step_view [of gen a e getter gps bytes H P fv d hk] by auto
  then obtain r gen' where s: "values_step H hk P bytes gen = Yield r gen'"
    and v: "cursorView (gen_state gen') = (a + length (cv_value fv), e, getter, ?gps')"
    by blast
  have "map g_protocol (f_group (currentFrame (gen_state gen'))) = ?gps'"
    using v by (simp add: cursorView_def)
  then have "length (f_group (currentFrame (gen_state gen'))) = length ?gps'"
    by (metis length_map)
  then have "length (f_group (currentFrame (gen_state gen')))
               = (if isGroup ?p d then rounds (dc_count d) else 0) + (length gps - 1)"
    by simp
  then show "\<exists>r gen'. values_step H hk P bytes gen = Yield r gen'
               \<and> cursorView (gen_state gen') = (a + length (cv_value fv), e, getter, ?gps')
               \<and> length (f_group (currentFrame (gen_state gen')))
                   = (if isGroup ?p d then rounds (dc_count d) else 0) + (length gps - 1)"
    using s v by blast
qed

theorem group_stack_discipline_witness:
  "f_group (currentFrame (pushGroup (Some 3) None exampleRoot (newDecoderState exampleRoot)))
     = [\<lparr>g_protocol = None, g_value = exampleRoot\<rparr>, \<lparr>g_protocol = None, g_value = exampleRoot\<rparr>,
        \<lparr>g_protocol = None, g_value = exampleRoot\<rparr>]
   \<and> popGroup (newDecoderState exampleRoot) = (None, newDecoderState exampleRoot)
   \<and> map (\<lambda>n. groupDepth (values_after n exampleHards defaultHooks exampleProtocol
                             scenarioC_stream (newGenerator (newDecoderState exampleRoot))))
        [2, 3, 4, 5]
       = [Some 3, Some 2, Some 1, Some 0]
   \<and> map_option (\<lambda>g. fst (popGroup (gen_state g)) = None)
        (values_after 5 exampleHards defaultHooks exampleProtocol scenarioC_stream
           (newGenerator (newDecoderState exampleRoot))) = Some True"
proof -
  let ?g0 = "newGenerator (newDecoderState exampleRoot)"
  let ?step = "values_step exampleHards defaultHooks exampleProtocol scenarioC_stream"
  let ?after = "\<lambda>n. values_after n exampleHards defaultHooks exampleProtocol scenarioC_stream ?g0"
  let ?hdr = "\<lparr>cv_header = DerivationCode exampleGroupHeader, cv_value = [45, 65, 65, 68]\<rparr>"
  note b = scenarioC_bytes sliceFrame_def jslice_def
  have e: "f_group (currentFrame (newDecoderState exampleRoot)) = []"
    by (simp add: newDecoderState_def)
  have push: "f_group (currentFrame (pushGroup (Some 3) None exampleRoot (newDecoderState exampleRoot)))
     = [\<lparr>g_protocol = None, g_value = exampleRoot\<rparr>, \<lparr>g_protocol = None, g_value = exampleRoot\<rparr>,
        \<lparr>g_protocol = None, g_value = exampleRoot\<rparr>]"
    using group_stack_discipline [of "Some 3" None exampleRoot "newDecoderState exampleRoot"]
    by (simp add: e rounds_def numeral_3_eq_3)
  have pop: "popGroup (newDecoderState exampleRoot) = (None, newDecoderState exampleRoot)"
    using group_stack_discipline [of None None exampleRoot "newDecoderState exampleRoot"]
    by (simp add: e)
  have v0: "cursorView (gen_state ?g0) = (0, None, GetCesrFrame, [])"
    by (rule newGenerator_view)
  obtain r1 g1 where s1: "?step ?g0 = Yield r1 g1"
    and v1: "cursorView (gen_state g1) = (4, Some 32, GetCesrValue, [])"
    using example_step_frame [OF v0, of scenarioC_stream 72 7 defaultHooks]
    by (auto simp: b toInt_digits)
  have sl: "sliceFrame 4 (Some 32) scenarioC_stream
              = [45, 65, 65, 68, 50, 95, 95, 95, 65, 65, 65, 66,
                 50, 95, 95, 95, 65, 65, 65, 66, 50, 95, 95, 95, 65, 65, 65, 66]"
    by (simp add: b)
  have gv: "callGetter exampleHards GetCesrValue (viewProtocol exampleProtocol [])
              (sliceFrame 4 (Some 32) scenarioC_stream) = Inr ?hdr"
    unfolding sl using example_group_value [of "sliceFrame 4 (Some 32) scenarioC_stream"]
    by (simp add: sl callGetter_def viewProtocol_def)
  have k: "\<not> isFrame (viewProtocol exampleProtocol []) exampleGroupHeader"
    "isGroup (viewProtocol exampleProtocol []) exampleGroupHeader"
    "\<not> hasContext (viewProtocol exampleProtocol []) exampleGroupHeader"
    by (simp_all add: viewProtocol_def example_kinds)
  have c: "rounds (dc_count exampleGroupHeader) = 3" "dc_selector exampleGroupHeader \<noteq> []"
    by (simp_all add: exampleGroupHeader_def rounds_def)
  have "\<exists>r gen'. ?step g1 = Yield r gen'
          \<and> cursorView (gen_state gen') = (4 + 4, Some 32, GetCesrValue, [None, None, None])
          \<and> length (f_group (currentFrame (gen_state gen'))) = 3"
    using group_stack_discipline [of None None exampleRoot "newDecoderState exampleRoot" g1 4 "Some 32" GetCesrValue "[]"
        scenarioC_stream exampleHards exampleProtocol ?hdr exampleGroupHeader defaultHooks]
      v1 gv k c
    by (simp add: sl numeral_3_eq_3)
  then obtain r2 g2 where s2: "?step g1 = Yield r2 g2"
    and v2: "cursorView (gen_state g2) = (8, Some 32, GetCesrValue, [None, None, None])"
    by auto
  obtain r3 g3 where s3: "?step g2 = Yield r3 g3"
    and v3: "cursorView (gen_state g3) = (16, Some 32, GetCesrValue, [None, None])"
    using example_step_leaf [OF v2, of scenarioC_stream defaultHooks]
    by (auto simp: b)
  obtain r4 g4 where s4: "?step g3 = Yield r4 g4"
    and v4: "cursorView (gen_state g4) = (24, Some 32, GetCesrValue, [None])"
    using example_step_leaf [OF v3, of scenarioC_stream defaultHooks]
    by (auto simp: b)
  obtain r5 g5 where s5: "?step g4 = Yield r5 g5"
    and v5: "cursorView (gen_state g5) = (32, Some 32, GetCesrValue, [])"
    using example_step_leaf [OF v4, of scenarioC_stream defaultHooks]
    by (auto simp: b)
  have a2: "?after 2 = Some g2"
    using s1 s2 by (simp add: numeral_2_eq_2)
  have a3: "?after 3 = Some g3"
    using s1 s2 s3 by (simp add: numeral_3_eq_3)
  have a4: "?after 4 = Some g4"
    using s1 s2 s3 s4 by (simp add: eval_nat_numeral)
  have a5: "?after 5 = Some g5"
    using s1 s2 s3 s4 s5 by (simp add: eval_nat_numeral)
  have d: "groupDepth (Some g2) = Some 3" "groupDepth (Some g3) = Some 2"
    "groupDepth (Some g4) = Some 1" "groupDepth (Some g5) = Some 0"
    using groupDepth_view [OF v2] groupDepth_view [OF v3] groupDepth_view [OF v4]
      groupDepth_view [OF v5]
    by simp_all
  show ?thesis
    using push pop d depth_pop(2) [OF d(4)] by (simp add: a2 a3 a4 a5)
qed

subsection \<open>Encoding a primitive and decoding it\<close>

lemma encode_001: "encodeBase64Url [0, 0, 1] True = Inr [65, 65, 65, 66]"
  unfolding encodeBase64Url_text
  by (simp add: stdText_def b64std_ranges replaceAll_def)

lemma lead_text: "Utf8_encode (js ''2___AAAB'') = [50, 95, 95, 95, 65, 65, 65, 66]"
proof -
  have "\<forall>c\<in>set (js ''2___AAAB''). c < 128"
    by (simp add: js_def)
  then show ?thesis
    by (simp add: Utf8_encode_ascii) (simp add: js_def)
qed

lemma toMatter_lead_1:
  "toMatterQB64b [1] (js ''2___'') exampleProtocol = Inr (Utf8_encode (js ''2___AAAB''))"
proof -
  have t: "getCodeTable exampleProtocol (js ''2___'') = Inr (matterSpec 4 0 (Some 8) 1)"
    using example_table_lead by (simp add: js_def)
  have c: "js ''2___'' @ [65, 65, 65, 66] = js ''2___AAAB''"
    by (simp add: js_def)
  have r: "replicate 2 (0 :: byte) @ [1] = [0, 0, 1]"
    by (simp add: numeral_2_eq_2)
  show ?thesis
    by (simp add: toMatterQB64b_def t example_sizes Let_def r encode_001 c)
qed

lemma toMatter_lead_2:
  "toMatterQB64b [1, 2] (js ''2___'') exampleProtocol = Inl InvalidCodeSize"
proof -
  have t: "getCodeTable exampleProtocol (js ''2___'') = Inr (matterSpec 4 0 (Some 8) 1)"
    using example_table_lead by (simp add: js_def)
  show ?thesis
    by (simp add: toMatterQB64b_def t example_sizes Let_def)
qed

lemma fromMatter_lead:
  "fromMatterQB64b exampleHards (Bytes [50, 95, 95, 95, 65, 65, 65, 66]) exampleProtocol
     = Inr (js ''2___'', 8, [0, 1])"
proof -
  let ?q = "[50, 95, 95, 95, 65, 65, 65, 66] :: byte list"
  let ?sz = "\<lparr>sz_hs = 4, sz_ss = 0, sz_fs = Some 8, sz_ls = 1\<rparr>"
  have d1: "Utf8_decode (jslice 0 1 ?q) = [50]"
    by (simp add: jslice_def Utf8_decode_ascii)
  have d4: "Utf8_decode (jslice 0 4 ?q) = [50, 95, 95, 95]"
    by (simp add: jslice_def Utf8_decode_ascii)
  have f: "fullSize ?sz ?q = Inr 8"
    by (simp add: fullSize_def)
  have x: "exfilRaw 4 1 ?q = Inr [0, 1]"
    by (simp add: exfilRaw_def decode_AAAB jslice_def readInt_simps)
  have k: "checkRawLength 4 1 ?q [0, 1]"
    by (simp add: checkRawLength_def)
  have "fromMatterQB64b exampleHards (Bytes ?q) exampleProtocol = Inr ([50, 95, 95, 95], 8, [0, 1])"
  proof -
    have h: "MatterHards exampleHards (Utf8_decode (jslice 0 1 ?q)) = Some 4"
      unfolding d1 by (rule example_hard_2)
    have t: "getCodeTable exampleProtocol (Utf8_decode (jslice 0 4 ?q))
               = Inr (matterSpec 4 0 (Some 8) 1)"
      unfolding d4 by (rule example_table_lead)
    show ?thesis
      using fromMatterQB64b_path [OF _ h _ t example_sizes f] x k
      by (simp add: jsliceTo_def d4)
  qed
  then show ?thesis
    by (simp add: js_def)
qed

lemma b64std_0: "b64std ! 0 = 65"
  unfolding b64std_ranges by (simp add: nth_append del: upt_rec_numeral)

lemma urlText_length:
  "length (replaceAll 47 95 (replaceAll 43 45 (stdText s))) = length (sextets s)"
  by (simp add: replaceAll_def stdText_def)

lemma zero_prefix_1:
  fixes raw :: "byte list"
  assumes "length raw mod 3 = 2"
  shows "take 1 (replaceAll 47 95 (replaceAll 43 45 (stdText (map unat (replicate 1 0 @ raw)))))
           = replicate 1 65"
proof -
  obtain a b rest where r: "raw = a # b # rest"
    using assms by (cases raw; cases "tl raw") auto
  show ?thesis
    unfolding r by (simp add: stdText_def replaceAll_def b64std_0)
qed

lemma zero_prefix_2:
  fixes raw :: "byte list"
  assumes "length raw mod 3 = 1"
  shows "take 2 (replaceAll 47 95 (replaceAll 43 45 (stdText (map unat (replicate 2 0 @ raw)))))
           = replicate 2 65"
proof -
  obtain a rest where r: "raw = a # rest"
    using assms by (cases raw) auto
  show ?thesis
    unfolding r by (simp add: stdText_def replaceAll_def b64std_0 numeral_2_eq_2)
qed

lemma padCount_cases:
  "n mod 3 = 0 \<Longrightarrow> padCount n = 0" "n mod 3 = 1 \<Longrightarrow> padCount n = 2"
  "n mod 3 = 2 \<Longrightarrow> padCount n = 1"
  by (simp_all add: padCount_def)

lemma zero_prefix:
  fixes raw :: "byte list"
  shows "take (padCount (length raw))
           (replaceAll 47 95 (replaceAll 43 45
              (stdText (map unat (replicate (padCount (length raw)) 0 @ raw)))))
           = replicate (padCount (length raw)) 65"
  using mod3_cases [of "length raw"]
proof (elim disjE)
  assume "length raw mod 3 = 0"
  then show ?thesis by (simp add: padCount_cases)
next
  assume h: "length raw mod 3 = 1"
  show ?thesis
    unfolding padCount_cases(2) [OF h] using h by (rule zero_prefix_2)
next
  assume h: "length raw mod 3 = 2"
  show ?thesis
    unfolding padCount_cases(3) [OF h] using h by (rule zero_prefix_1)
qed

lemma padded_raw_length:
  "\<exists>k. length raw + padCount (length raw) = 3 * k"
proof -
  have e: "3 * (length raw div 3) + length raw mod 3 = length raw"
    by (rule mult_div_mod_eq)
  show ?thesis
    using mod3_cases [of "length raw"]
  proof (elim disjE)
    assume h: "length raw mod 3 = 0"
    have "length raw + 0 = 3 * (length raw div 3)"
      using e unfolding h by simp
    then show ?thesis
      unfolding padCount_cases(1) [OF h] by blast
  next
    assume h: "length raw mod 3 = 1"
    have "length raw + 2 = 3 * (length raw div 3 + 1)"
      using e unfolding h by simp
    then show ?thesis
      unfolding padCount_cases(2) [OF h] by blast
  next
    assume h: "length raw mod 3 = 2"
    have "length raw + 1 = 3 * (length raw div 3 + 1)"
      using e unfolding h by simp
    then show ?thesis
      unfolding padCount_cases(3) [OF h] by blast
  qed
qed

lemma raw_length_check:
  assumes "rs + ps = 3 * k" and "ps = 0 \<or> ps = 1 \<or> ps = (2 :: nat)"
  shows "int rs = (int (4 * k - ps) * 3) div 4"
  using assms(2)
proof (elim disjE)
  assume "ps = 0"
  then show ?thesis using assms(1) by simp
next
  assume p: "ps = 1"
  then obtain j where k: "k = Suc j" using assms(1) by (cases k) auto
  have rs: "rs = 3 * j + 2" using assms(1) p k by simp
  have "int (4 * k - ps) * 3 = 1 + 4 * (3 * int j + 2)" using p k by simp
  also have "\<dots> div 4 = 3 * int j + 2"
    by (simp only: div_mult_self2 [of 4 1 "3 * int j + 2"])
  finally show ?thesis using rs by simp
next
  assume p: "ps = 2"
  then obtain j where k: "k = Suc j" using assms(1) by (cases k) auto
  have rs: "rs = 3 * j + 1" using assms(1) p k by simp
  have "int (4 * k - ps) * 3 = 2 + 4 * (3 * int j + 1)" using p k by simp
  also have "\<dots> div 4 = 3 * int j + 1"
    by (simp only: div_mult_self2 [of 4 2 "3 * int j + 1"])
  finally show ?thesis using rs by simp
qed


text \<open>
  Without lead bytes the round trip holds: the pad bytes written in front become the
  characters \<^verbatim>\<open>A\<close> that the code replaces, and the decoder puts them back.
\<close>

lemma matter_round_trip_no_lead:
  fixes raw :: "byte list"
  assumes tab: "getCodeTable p code = Inr table"
    and sz: "spec_sizes table = Some sz"
    and ss: "sz_ss sz = 0" and ls: "sz_ls sz = 0"
    and hard: "MatterHards H (take 1 code) = Some (sz_hs sz)"
    and len: "length code = sz_hs sz" and pos: "0 < sz_hs sz"
    and asc: "\<forall>c\<in>set code. c < 128"
    and pad: "sz_hs sz mod 4 = padCount (length raw)"
    and full: "sz_fs sz = Some f"
      "f = sz_hs sz + (4 * ((length raw + padCount (length raw)) div 3) - padCount (length raw))"
  shows "\<exists>q. toMatterQB64b raw code p = Inr q
           \<and> fromMatterQB64b H (Bytes q) p = Inr (code, int f, raw)"
proof -
  define ps where "ps = padCount (length raw)"
  define pr where "pr = replicate ps (0 :: byte) @ raw"
  define u where "u = replaceAll 47 95 (replaceAll 43 45 (stdText (map unat pr)))"
  define q :: "byte list" where "q = map of_nat (code @ drop ps u)"
  let ?hs = "sz_hs sz"
  obtain k where k: "length raw + ps = 3 * k"
    unfolding ps_def using padded_raw_length by blast
  have ps2: "ps = 0 \<or> ps = 1 \<or> ps = 2"
    using padCount_le [of "length raw"] unfolding ps_def by arith
  have lpr: "length (map unat pr) = 3 * k"
    using k by (simp add: pr_def)
  have lu: "length u = 4 * k"
    unfolding u_def urlText_length using sextets_length_cases(1) [of "map unat pr"] lpr by simp
  have pre: "take ps u = replicate ps 65"
    unfolding u_def pr_def ps_def by (rule zero_prefix)
  have psk: "ps \<le> 4 * k"
    using ps2 k by auto
  have enc: "encodeBase64Url pr True = Inr u"
    by (simp add: encodeBase64Url_text u_def)
  have uasc: "\<forall>c\<in>set u. c < 128"
    using urlText_ascii [of pr 0] by (simp add: u_def)
  have tasc: "\<forall>c\<in>set (code @ drop ps u). c < 128"
    using asc uasc by (auto dest: in_set_dropD)
  have ue: "Utf8_encode (code @ drop ps u) = q"
    unfolding q_def using tasc by (rule Utf8_encode_ascii)
  have pc: "(3 - length raw mod 3) mod 3 = ps"
    by (simp add: ps_def padCount_def)
  have cm: "?hs mod 4 = ps"
    using pad by (simp add: ps_def)
  have toM: "toMatterQB64b raw code p = Inr q"
    by (simp add: toMatterQB64b_def tab sz Let_def ss ls pc cm enc ue flip: pr_def)
  have t256: "\<forall>c\<in>set (code @ drop ps u). c < 256"
  proof
    fix c assume "c \<in> set (code @ drop ps u)"
    then have "c < 128" using tasc by blast
    then show "c < 256" by simp
  qed
  have mu: "map unat q = code @ drop ps u"
    unfolding q_def using t256 by (rule map_unat_of_nat)
  have qasc: "\<forall>b\<in>set q. unat b < 128"
  proof
    fix b assume "b \<in> set q"
    then have "unat b \<in> set (map unat q)" by simp
    then show "unat b < 128" unfolding mu using tasc by blast
  qed
  have dec: "Utf8_decode (take n q) = take n (code @ drop ps u)" for n
  proof -
    have "\<forall>b\<in>set (take n q). unat b < 128"
      using qasc by (auto dest: in_set_takeD)
    then have "Utf8_decode (take n q) = map unat (take n q)"
      by (rule Utf8_decode_ascii)
    then show ?thesis
      unfolding take_map [symmetric] mu .
  qed
  have cne: "code \<noteq> []"
    using len pos by auto
  have d1: "Utf8_decode (jslice 0 1 q) = take 1 code"
    using cne by (cases code) (simp_all add: jslice_def dec)
  have dh: "Utf8_decode (jslice 0 ?hs q) = code"
    by (simp add: jslice_def dec len)
  have lq: "length q = ?hs + (4 * k - ps)"
    by (simp add: q_def len lu)
  have fk: "f = ?hs + (4 * k - ps)"
    using full(2) k by (simp add: ps_def)
  have qne: "q \<noteq> []"
    using lq pos by auto
  have hle: "?hs \<le> length q"
    using lq by simp
  have fsz: "fullSize sz q = Inr (int f)"
    by (simp add: fullSize_def full(1))
  have h1: "MatterHards H (Utf8_decode (jslice 0 1 q)) = Some ?hs"
    unfolding d1 by (rule hard)
  have t1: "getCodeTable p (Utf8_decode (jslice 0 ?hs q)) = Inr table"
    unfolding dh by (rule tab)
  have sl: "jsliceTo (int f) q = q"
    by (simp add: jsliceTo_def fk lq)
  have dq: "drop ?hs q = map of_nat (drop ps u)"
    by (simp add: q_def len drop_map)
  have whole: "replicate ps (65 :: byte) @ drop ?hs q = map of_nat u"
  proof -
    have "replicate ps (65 :: byte) = map of_nat (replicate ps (65 :: nat))"
      by simp
    then have "replicate ps (65 :: byte) @ drop ?hs q = map of_nat (take ps u @ drop ps u)"
      unfolding dq pre by (simp only: map_append)
    then show ?thesis
      by simp
  qed
  have du: "decodeBase64Url (map of_nat u) = Inr pr"
    using decodeBase64Url_text [of 0 pr] by (simp add: u_def)
  have x: "exfilRaw ?hs 0 q = Inr raw"
  proof (cases "ps = 0")
    case True
    then show ?thesis
      using du by (simp add: exfilRaw_def cm dq pr_def jslice_def readInt_def)
  next
    case False
    have w: "decodeBase64Url (replicate ps 65 @ drop ?hs q) = Inr pr"
      unfolding whole by (rule du)
    have z: "readInt (jslice 0 ps pr) = Finite 0"
      by (simp add: jslice_def pr_def readInt_zeros)
    show ?thesis
      using False by (simp add: exfilRaw_def cm w z andInt32_zero) (simp add: pr_def)
  qed
  have c: "checkRawLength ?hs 0 q raw"
    using raw_length_check [OF k ps2] by (simp add: checkRawLength_def lq)
  have nl: "\<not> int (length q) < int f"
    by (simp add: fk lq)
  have "fromMatterQB64b H (Bytes q) p = Inr (code, int f, raw)"
    using fromMatterQB64b_path [OF qne h1 hle t1 sz fsz] x c nl
    by (simp add: ss ls sl dh)
  then show ?thesis
    using toM by blast
qed

text \<open>
  Claim C1. The encoder takes the pad size from the raw size and the lead size together,
  tests it against the code size with the lead size subtracted, and writes pad and lead
  bytes both in front. For a fixed-size code with one lead byte (four characters of code,
  full size 8: two bytes of raw material) the two bytes are refused; one byte is accepted,
  and the decoder returns two bytes for it, the first a zero.
\<close>

theorem matter_round_trip_lead_byte:
  "toMatterQB64b [1] (js ''2___'') exampleProtocol = Inr (Utf8_encode (js ''2___AAAB''))
   \<and> fromMatterQB64b exampleHards (Bytes (Utf8_encode (js ''2___AAAB''))) exampleProtocol
       = Inr (js ''2___'', 8, [0, 1])
   \<and> toMatterQB64b [1, 2] (js ''2___'') exampleProtocol = Inl InvalidCodeSize"
  using toMatter_lead_1 toMatter_lead_2 fromMatter_lead by (simp add: lead_text)

end
